theory Spec2Isabelle
  imports Main
begin

text \<open>
  A model of the focus timer and of the log table of the plugin, the class \<^verbatim>\<open>BreakView\<close> of
  \<^verbatim>\<open>src/main.ts\<close>. The file holds two versions of the plugin one after the other; the model
  follows the later one (from line 1027 on), and every line number below is a line of that
  file. The definitions come first: strings, settings and dates, the log table with
  \<^verbatim>\<open>saveLogEntry\<close>, \<^verbatim>\<open>updateLogEntry\<close> and \<^verbatim>\<open>parseLogFile\<close>, the yearly statistics, the timer,
  and the example inputs. The theorems follow, one section for each part of the code.
\<close>

section \<open>JavaScript strings\<close>

text \<open>
  A JavaScript string is a sequence of UTF-16 code units. The plugin's literals contain
  Chinese characters, so a string is modelled as a list of code units (natural numbers)
  and every literal of \<^verbatim>\<open>src/main.ts\<close> is written out by its code units.
  \<open>str\<close> embeds an ASCII literal.
\<close>

type_synonym jstring = "nat list"

definition str :: "string \<Rightarrow> jstring" where
  "str s = map of_char s"

abbreviation newline :: nat where "newline \<equiv> 10"
abbreviation space :: nat where "space \<equiv> 32"
abbreviation pipe :: nat where "pipe \<equiv> 124"
abbreviation slash :: nat where "slash \<equiv> 47"
abbreviation backslash :: nat where "backslash \<equiv> 92"
abbreviation colon :: nat where "colon \<equiv> 58"
abbreviation dash :: nat where "dash \<equiv> 45"

text \<open>\<^verbatim>\<open>String.prototype.trim\<close> removes WhiteSpace and LineTerminator code units
  (ECMAScript 12.2, 12.3) from both ends.\<close>

definition isWhiteSpace :: "nat \<Rightarrow> bool" where
  "isWhiteSpace c =
     (c = 9 \<or> c = 10 \<or> c = 11 \<or> c = 12 \<or> c = 13 \<or> c = 32 \<or> c = 160 \<or> c = 5760 \<or>
      (8192 \<le> c \<and> c \<le> 8202) \<or> c = 8232 \<or> c = 8233 \<or> c = 8239 \<or> c = 8287 \<or>
      c = 12288 \<or> c = 65279)"

definition trim :: "jstring \<Rightarrow> jstring" where
  "trim s = rev (dropWhile isWhiteSpace (rev (dropWhile isWhiteSpace s)))"

fun startsWith :: "'a list \<Rightarrow> 'a list \<Rightarrow> bool" where
  "startsWith s [] = True"
| "startsWith [] (p # ps) = False"
| "startsWith (x # xs) (p # ps) = (x = p \<and> startsWith xs ps)"

definition endsWith :: "'a list \<Rightarrow> 'a list \<Rightarrow> bool" where
  "endsWith s p = startsWith (rev s) (rev p)"

text \<open>\<^verbatim>\<open>s.includes(p)\<close>: \<open>p\<close> occurs in \<open>s\<close> as a contiguous substring
  (\<open>includes\<close> is a reserved word of Isabelle, hence the suffix).\<close>

fun includesStr :: "'a list \<Rightarrow> 'a list \<Rightarrow> bool" where
  "includesStr [] p = (p = [])"
| "includesStr (x # xs) p = (startsWith (x # xs) p \<or> includesStr xs p)"

text \<open>\<^verbatim>\<open>s.split(c)\<close> for a one-character separator: never empty, \<^verbatim>\<open>"".split(c)\<close> is
  \<^verbatim>\<open>[""]\<close>.\<close>

fun splitOn :: "'a \<Rightarrow> 'a list \<Rightarrow> 'a list list" where
  "splitOn c [] = [[]]"
| "splitOn c (x # xs) =
     (if x = c then [] # splitOn c xs
      else (case splitOn c xs of [] \<Rightarrow> [[x]] | l # ls \<Rightarrow> (x # l) # ls))"

text \<open>\<^verbatim>\<open>lines.join(c)\<close>.\<close>

fun joinWith :: "'a \<Rightarrow> 'a list list \<Rightarrow> 'a list" where
  "joinWith c [] = []"
| "joinWith c [l] = l"
| "joinWith c (l # m # ls) = l @ c # joinWith c (m # ls)"

text \<open>\<^verbatim>\<open>xs.findIndex(P)\<close>; \<open>None\<close> is the result \<^verbatim>\<open>-1\<close>.\<close>

fun findIndex :: "('a \<Rightarrow> bool) \<Rightarrow> 'a list \<Rightarrow> nat option" where
  "findIndex P [] = None"
| "findIndex P (x # xs) = (if P x then Some 0 else map_option Suc (findIndex P xs))"

text \<open>\<^verbatim>\<open>xs.splice(i, 0, e)\<close>: insert \<open>e\<close> before position \<open>i\<close>; a start beyond the
  end is clamped to the length, so the element is appended.\<close>

definition splice_insert :: "nat \<Rightarrow> 'a \<Rightarrow> 'a list \<Rightarrow> 'a list" where
  "splice_insert i e xs = take i xs @ e # drop i xs"

text \<open>\<^verbatim>\<open>s.replace(/\\/g, '/')\<close>.\<close>

definition normalizeSlashes :: "jstring \<Rightarrow> jstring" where
  "normalizeSlashes s = map (\<lambda>c. if c = backslash then slash else c) s"

text \<open>\<^verbatim>\<open>s.lastIndexOf('/')\<close> followed by \<^verbatim>\<open>s.substring(0, that)\<close>: everything before the
  last slash, the empty string when there is none (\<^verbatim>\<open>substring(0, -1)\<close> is empty).\<close>

definition beforeLastSlash :: "jstring \<Rightarrow> jstring" where
  "beforeLastSlash s =
     (if slash \<in> set s then rev (tl (dropWhile (\<lambda>c. c \<noteq> slash) (rev s))) else [])"

subsection \<open>Numbers in strings\<close>

text \<open>The decimal digits of a natural number.\<close>

definition digitChar :: "nat \<Rightarrow> nat" where
  "digitChar d = 48 + d"

fun showNat :: "nat \<Rightarrow> jstring" where
  "showNat n = (if n < 10 then [digitChar n] else showNat (n div 10) @ [digitChar (n mod 10)])"

declare showNat.simps [simp del]

text \<open>A template literal prints a number with \<^verbatim>\<open>Number::toString\<close>. An integer below
  \<open>10^21\<close> in magnitude is printed with all its digits. From \<open>10^21\<close> on the exponent form
  is printed: the first significant digit, a point and the other significant digits when
  there are any, \<^verbatim>\<open>e+\<close> and the exponent, as in \<^verbatim>\<open>1e+21\<close> and \<^verbatim>\<open>1.5e+21\<close>. The
  significant digits are those of the integer without its trailing zeros (there is one at
  least, the number not being zero); they are the digits JavaScript prints when there are
  at most 15 of them (with more, JavaScript prints the shortest digits that identify the
  floating-point number, which this model does not compute).\<close>

definition exponentForm :: "nat \<Rightarrow> jstring" where
  "exponentForm n =
     (let digits = showNat n;
          significant = rev (dropWhile (\<lambda>c. c = 48) (rev digits))
      in (case significant of
            [] \<Rightarrow> [48]
          | first # others \<Rightarrow> first # (if others = [] then [] else 46 # others))
           @ [101, 43] @ showNat (length digits - 1))"

definition showMagnitude :: "nat \<Rightarrow> jstring" where
  "showMagnitude n = (if n < 10 ^ 21 then showNat n else exponentForm n)"

definition showInt :: "int \<Rightarrow> jstring" where
  "showInt i = (if i < 0 then dash # showMagnitude (nat (- i)) else showMagnitude (nat i))"

text \<open>\<^verbatim>\<open>s.padStart(n, '0')\<close>.\<close>

definition padStart :: "nat \<Rightarrow> jstring \<Rightarrow> jstring" where
  "padStart n s = replicate (n - length s) 48 @ s"

definition isDigit :: "nat \<Rightarrow> bool" where
  "isDigit c = (48 \<le> c \<and> c \<le> 57)"

text \<open>\<^verbatim>\<open>parseInt\<close> of a string of decimal digits.\<close>

definition parseDigits :: "jstring \<Rightarrow> nat" where
  "parseDigits ds = foldl (\<lambda>acc c. 10 * acc + (c - 48)) 0 ds"

text \<open>A JavaScript number as the log code uses it: an integer, or \<^verbatim>\<open>NaN\<close>.\<close>

datatype jsnum = Num int | NaN

fun jsadd :: "jsnum \<Rightarrow> jsnum \<Rightarrow> jsnum" where
  "jsadd (Num a) (Num b) = Num (a + b)"
| "jsadd _ _ = NaN"

text \<open>\<^verbatim>\<open>Number(s)\<close> on a column of a time stamp: surrounding white space is dropped, the
  empty string is \<open>0\<close>, a string of decimal digits is its value. Every other string is read
  as \<^verbatim>\<open>NaN\<close>; the signed, fractional, exponent and hexadecimal literals that JavaScript
  also accepts never occur in a time stamp the plugin writes and are outside this model.\<close>

definition toNumber :: "jstring \<Rightarrow> jsnum" where
  "toNumber s =
     (let t = trim s in
      if t = [] then Num 0
      else if list_all isDigit t then Num (int (parseDigits t))
      else NaN)"

section \<open>Settings and dates\<close>

text \<open>The fields of \<^verbatim>\<open>MyPluginSettings\<close> that the timer and the log code read. The
  durations are integers, as the settings tab stores them (\<^verbatim>\<open>parseInt\<close>).\<close>

record settings =
  workTime :: int
  breakTime :: int
  dateFormat :: jstring
  diaryPath :: jstring

text \<open>\<^verbatim>\<open>DEFAULT_SETTINGS.workTime || 25\<close> and \<^verbatim>\<open>DEFAULT_SETTINGS.breakTime || 5\<close>.\<close>

definition DEFAULT_workTime :: int where "DEFAULT_workTime = 25"
definition DEFAULT_breakTime :: int where "DEFAULT_breakTime = 5"

text \<open>A \<^verbatim>\<open>Date\<close> as the code observes it: the calendar date in local time
  (\<^verbatim>\<open>getFullYear\<close>, \<^verbatim>\<open>getMonth\<close> counted from 0, \<^verbatim>\<open>getDate\<close>) and the calendar date
  of the same instant in UTC, which \<^verbatim>\<open>toISOString\<close> prints.\<close>

record jsdate =
  getFullYear :: int
  getMonth :: nat
  getDate :: nat
  utcFullYear :: int
  utcMonth :: nat
  utcDate :: nat

text \<open>\<^verbatim>\<open>getFileNameDate\<close> (line 1386).\<close>

definition getFileNameDate :: "settings \<Rightarrow> jsdate \<Rightarrow> jstring" where
  "getFileNameDate cfg targetDate =
     (let year = showInt (getFullYear targetDate);
          month = padStart 2 (showNat (getMonth targetDate + 1));
          day = padStart 2 (showNat (getDate targetDate))
      in if dateFormat cfg = str ''YYYY/MM/DD'' then year @ slash # month @ slash # day
         else year @ dash # month @ dash # day)"

text \<open>The year of \<^verbatim>\<open>toISOString\<close>: four digits from 0 to 9999, a sign and six digits
  otherwise.\<close>

definition isoYear :: "int \<Rightarrow> jstring" where
  "isoYear y =
     (if 0 \<le> y \<and> y \<le> 9999 then padStart 4 (showNat (nat y))
      else (if y < 0 then dash else 43) # padStart 6 (showNat (nat \<bar>y\<bar>)))"

text \<open>\<^verbatim>\<open>getFormattedDate\<close>. The class declares the method twice (lines 1345 and 2506);
  the later declaration replaces the earlier one on the prototype, so every call site runs
  the body of line 2506: \<^verbatim>\<open>targetDate.toISOString().split('T')[0]\<close>, the UTC date, with
  no reference to the \<^verbatim>\<open>dateFormat\<close> setting.\<close>

definition getFormattedDate :: "jsdate \<Rightarrow> jstring" where
  "getFormattedDate targetDate =
     isoYear (utcFullYear targetDate) @ dash # padStart 2 (showNat (utcMonth targetDate + 1))
       @ dash # padStart 2 (showNat (utcDate targetDate))"

text \<open>\<^verbatim>\<open>this.currentDate || now\<close>.\<close>

definition targetDateOf :: "jsdate option \<Rightarrow> jsdate \<Rightarrow> jsdate" where
  "targetDateOf currentDate now = (case currentDate of None \<Rightarrow> now | Some d \<Rightarrow> d)"

text \<open>The path construction shared by \<^verbatim>\<open>saveLogEntry\<close> (lines 1771-1780),
  \<^verbatim>\<open>updateLogEntry\<close> (2004-2012) and \<^verbatim>\<open>loadPeriodLogData\<close> (2470-2482): the diary path, when
  set, then year, month and file name.\<close>

definition logFilePath :: "settings \<Rightarrow> jsdate \<Rightarrow> jstring \<Rightarrow> jstring" where
  "logFilePath cfg targetDate fileName =
     (let year = showInt (getFullYear targetDate);
          month = padStart 2 (showNat (getMonth targetDate + 1));
          fullPath =
            (if diaryPath cfg \<noteq> [] then
               (let normalizedPath = normalizeSlashes (diaryPath cfg) in
                if endsWith normalizedPath [slash]
                then normalizedPath @ year @ slash # month @ slash # fileName
                else normalizedPath @ slash # year @ slash # month @ slash # fileName)
             else fileName)
      in normalizeSlashes fullPath)"

section \<open>The log table\<close>

text \<open>The heading of the record table (the literal of lines 1800, 2022 and 2521): \<^verbatim>\<open>"## "\<close>
  and the five characters U+756A U+8304 U+949F U+8BB0 U+5F55 ("tomato clock record").\<close>

definition tableHeading :: jstring where
  "tableHeading = [35, 35, 32, 30058, 33540, 38047, 35760, 24405]"

text \<open>The header row (the literal of lines 1790, 1813 and 1815): five cells between pipes,
  each with one space on either side: start time (U+5F00 U+59CB U+65F6 U+95F4), end time
  (U+7ED3 U+675F U+65F6 U+95F4), tag (U+6807 U+7B7E), notes (U+5907 U+6CE8) and duration
  (U+65F6 U+957F).\<close>

definition headerRow :: jstring where
  "headerRow =
     [124, 32, 24320, 22987, 26102, 38388, 32, 124, 32, 32467, 26463, 26102, 38388, 32,
      124, 32, 26631, 31614, 32, 124, 32, 22791, 27880, 32, 124, 32, 26102, 38271, 32, 124]"

definition separatorRow :: jstring where
  "separatorRow = str ''|----------|----------|------|------|------|''"

text \<open>\<^verbatim>\<open>tableHeader\<close> of \<^verbatim>\<open>saveLogEntry\<close> (line 1790).\<close>

definition tableHeader :: jstring where
  "tableHeader =
     newline # tableHeading @ [newline, newline] @ headerRow @ newline # separatorRow @ [newline]"

text \<open>The first header cell (the literal of line 2539) and the unit of the duration column,
  U+5206 U+949F ("minutes", lines 1809 and 2546).\<close>

definition startTimeLabel :: jstring where
  "startTimeLabel = [24320, 22987, 26102, 38388]"

definition minutesUnit :: jstring where
  "minutesUnit = [20998, 38047]"

text \<open>\<^verbatim>\<open>line.split('|').map(col => col.trim()).filter(col => col)\<close>: the non-empty trimmed
  cells of a line.\<close>

definition columnsOf :: "jstring \<Rightarrow> jstring list" where
  "columnsOf line = filter (\<lambda>col. col \<noteq> []) (map trim (splitOn pipe line))"

subsection \<open>saveLogEntry\<close>

text \<open>\<^verbatim>\<open>durationMinutes || this.plugin.settings.workTime\<close>: an absent or zero duration
  falls back to the configured work time.\<close>

definition finalDurationMinutes :: "settings \<Rightarrow> int option \<Rightarrow> int" where
  "finalDurationMinutes cfg durationMinutes =
     (case durationMinutes of None \<Rightarrow> workTime cfg
      | Some d \<Rightarrow> if d = 0 then workTime cfg else d)"

text \<open>The row \<^verbatim>\<open>logEntry\<close> (line 1809).\<close>

definition logEntry :: "jstring \<Rightarrow> jstring \<Rightarrow> jstring \<Rightarrow> jstring \<Rightarrow> int \<Rightarrow> jstring" where
  "logEntry startTime endTime tag notes minutes =
     str ''| '' @ startTime @ str '' | '' @ endTime @ str '' | '' @ tag @ str '' | '' @ notes
       @ str '' | '' @ showInt minutes @ minutesUnit @ str '' |''"

text \<open>The text the duplicate check looks for (line 1822).\<close>

definition duplicateKey :: "jstring \<Rightarrow> jstring \<Rightarrow> jstring \<Rightarrow> jstring" where
  "duplicateKey startTime endTime tag =
     str ''| '' @ startTime @ str '' | '' @ endTime @ str '' | '' @ tag @ str '' |''"

text \<open>The loop of lines 1820-1826 over the lines from \<^verbatim>\<open>insertIndex\<close> on.\<close>

fun hasDuplicate :: "jstring \<Rightarrow> jstring list \<Rightarrow> bool" where
  "hasDuplicate key [] = False"
| "hasDuplicate key (l # ls) =
     (let line = trim l in
      if startsWith line [pipe] \<and> includesStr line key then True else hasDuplicate key ls)"

text \<open>\<^verbatim>\<open>content.endsWith('\n') ? '' : '\n'\<close>.\<close>

definition newLineFor :: "jstring \<Rightarrow> jstring" where
  "newLineFor content = (if endsWith content [newline] then [] else [newline])"

text \<open>Lines 1792-1805: the content of the file once the table is in place. \<open>None\<close> is a
  file that does not exist yet; it is created with a title line and the table header.\<close>

definition ensureTable :: "jstring \<Rightarrow> jstring option \<Rightarrow> jstring" where
  "ensureTable dateString existing =
     (case existing of
        None \<Rightarrow> str ''# '' @ dateString @ [newline, newline] @ tableHeader
      | Some content \<Rightarrow>
          if \<not> includesStr content tableHeading
          then content @ newLineFor content @ tableHeader
          else content)"

text \<open>Lines 1813-1836: the content \<^verbatim>\<open>vault.modify\<close> receives, or \<open>None\<close> when a duplicate
  is found and the file is not written. When \<^verbatim>\<open>findIndex\<close> yields \<^verbatim>\<open>-1\<close> the insert index
  is \<^verbatim>\<open>-1 + 2 = 1\<close>.\<close>

definition insertLogEntry ::
  "jstring \<Rightarrow> jstring \<Rightarrow> jstring \<Rightarrow> jstring \<Rightarrow> jstring \<Rightarrow> jstring option" where
  "insertLogEntry content startTime endTime tag entryRow =
     (if includesStr content headerRow then
        (let lines = splitOn newline content;
             insertIndex =
               (case findIndex (\<lambda>line. includesStr line headerRow) lines of
                  None \<Rightarrow> 1 | Some headerIndex \<Rightarrow> headerIndex + 2)
         in if hasDuplicate (duplicateKey startTime endTime tag) (drop insertIndex lines)
            then None
            else Some (joinWith newline (splice_insert insertIndex entryRow lines)))
      else Some (content @ newLineFor content @ entryRow))"

text \<open>The content of the day's file after \<^verbatim>\<open>saveLogEntry\<close>, as a function of its content
  before (\<open>None\<close>: no file), the date string of the file name, and the arguments.\<close>

definition saveLogContent ::
  "settings \<Rightarrow> jstring \<Rightarrow> jstring option \<Rightarrow> jstring \<Rightarrow> jstring \<Rightarrow> jstring \<Rightarrow> jstring
     \<Rightarrow> int option \<Rightarrow> jstring" where
  "saveLogContent cfg dateString existing startTime endTime tag notes durationMinutes =
     (let content = ensureTable dateString existing;
          entryRow = logEntry startTime endTime tag notes (finalDurationMinutes cfg durationMinutes)
      in case insertLogEntry content startTime endTime tag entryRow of
           None \<Rightarrow> content
         | Some content' \<Rightarrow> content')"

subsection \<open>The vault\<close>

text \<open>The host's document store, as far as the log code uses it: a path holds a file with
  its text, a folder, or nothing (\<^verbatim>\<open>getAbstractFileByPath\<close> returns null).\<close>

datatype node = TFile jstring | TFolder

type_synonym vault = "jstring \<Rightarrow> node option"

text \<open>The notices the log code and the timer show, one constructor for each message.\<close>

datatype notice =
    RecordSaved jstring "int option"
  | SaveFailed
  | DiaryFileMissing
  | NotesUpdated
  | TableMalformed
  | RecordNotFound
  | UpdateFailed
  | SelectTagFirst
  | FocusEnded
  | BreakEnded
  | Paused
  | Skipped bool

text \<open>\<^verbatim>\<open>createDirectoryRecursive\<close> (line 1403), the loop over the path's segments with the
  path built so far. \<open>Inl\<close> is the thrown error (a segment exists and is not a folder) with
  the vault as the loop left it.\<close>

fun createSegments :: "vault \<Rightarrow> jstring \<Rightarrow> jstring list \<Rightarrow> vault + vault" where
  "createSegments v currentPath [] = Inr v"
| "createSegments v currentPath (part # parts) =
     (let currentPath' = (if currentPath \<noteq> [] then currentPath @ slash # part else part) in
      case v currentPath' of
        None \<Rightarrow> createSegments (v(currentPath' \<mapsto> TFolder)) currentPath' parts
      | Some TFolder \<Rightarrow> createSegments v currentPath' parts
      | Some (TFile _) \<Rightarrow> Inl v)"

definition createDirectoryRecursive :: "vault \<Rightarrow> jstring \<Rightarrow> vault + vault" where
  "createDirectoryRecursive v path =
     createSegments v [] (filter (\<lambda>part. part \<noteq> []) (splitOn slash path))"

text \<open>The text of the file at a path, if there is a file.\<close>

definition fileText :: "node option \<Rightarrow> jstring option" where
  "fileText file = (case file of Some (TFile c) \<Rightarrow> Some c | _ \<Rightarrow> None)"

text \<open>\<^verbatim>\<open>saveLogEntry\<close> (lines 1761-1843) on the vault. \<open>currentDate\<close> is the field of the
  view (\<open>None\<close>: not set), \<open>now\<close> the clock. An exception (a path segment that is a file, or
  the day's path holding a folder, which \<^verbatim>\<open>vault.read\<close> rejects) ends in the notice of the
  \<^verbatim>\<open>catch\<close> block.\<close>

definition saveLogEntry ::
  "settings \<Rightarrow> jsdate option \<Rightarrow> jsdate \<Rightarrow> vault \<Rightarrow> jstring \<Rightarrow> jstring \<Rightarrow> jstring \<Rightarrow> jstring
     \<Rightarrow> int option \<Rightarrow> vault \<times> notice list" where
  "saveLogEntry cfg currentDate now v startTime endTime tag notes durationMinutes =
     (let targetDate = targetDateOf currentDate now;
          dateString = getFileNameDate cfg targetDate;
          fileName = dateString @ str ''.md'';
          fullPath = logFilePath cfg targetDate fileName;
          dirPath = beforeLastSlash fullPath
      in case (if dirPath \<noteq> [] \<and> v dirPath = None then createDirectoryRecursive v dirPath
               else Inr v) of
           Inl v1 \<Rightarrow> (v1, [SaveFailed])
         | Inr v1 \<Rightarrow>
             (case v1 fullPath of
                Some TFolder \<Rightarrow> (v1, [SaveFailed])
              | file \<Rightarrow>
                  (let existing = fileText file;
                       content = ensureTable dateString existing;
                       v2 = (case existing of
                               None \<Rightarrow> v1(fullPath \<mapsto> TFile content)
                             | Some c \<Rightarrow>
                                 if \<not> includesStr c tableHeading
                                 then v1(fullPath \<mapsto> TFile content) else v1);
                       entryRow = logEntry startTime endTime tag notes
                                    (finalDurationMinutes cfg durationMinutes);
                       v3 = (case insertLogEntry content startTime endTime tag entryRow of
                               None \<Rightarrow> v2
                             | Some content' \<Rightarrow> v2(fullPath \<mapsto> TFile content'))
                   in (v3, [RecordSaved tag durationMinutes]))))"

subsection \<open>updateLogEntry\<close>

text \<open>The test of lines 2029-2032 on one line: a table line with at least five cells whose
  first three are the key.\<close>

definition rowMatches :: "jstring \<Rightarrow> jstring \<Rightarrow> jstring \<Rightarrow> jstring \<Rightarrow> bool" where
  "rowMatches startTime endTime tag l =
     (let line = trim l in
      startsWith line [pipe] \<and>
      (let columns = columnsOf line in
       5 \<le> length columns \<and> columns ! 0 = startTime \<and> columns ! 1 = endTime
         \<and> columns ! 2 = tag))"

text \<open>What \<^verbatim>\<open>updateLogEntry\<close> does with the content it read (lines 2021-2058): it returns
  without a word when the heading is missing, rewrites the notes cell of the first matching
  row, or reports a malformed row or a missing record.\<close>

datatype update_outcome =
    NoHeading
  | Rewritten jstring
  | Malformed
  | NoSuchRow

definition updateContent ::
  "jstring \<Rightarrow> jstring \<Rightarrow> jstring \<Rightarrow> jstring \<Rightarrow> jstring \<Rightarrow> update_outcome" where
  "updateContent content startTime endTime tag newNotes =
     (let lines = splitOn newline content in
      case findIndex (\<lambda>line. includesStr line tableHeading) lines of
        None \<Rightarrow> NoHeading
      | Some tableStartIndex \<Rightarrow>
          (case findIndex (rowMatches startTime endTime tag) (drop (tableStartIndex + 2) lines) of
             None \<Rightarrow> NoSuchRow
           | Some k \<Rightarrow>
               (let tableLineIndex = tableStartIndex + 2 + k;
                    columns = filter (\<lambda>col. 0 < length col)
                                (map trim (splitOn pipe (lines ! tableLineIndex)))
                in if 5 \<le> length columns then
                     Rewritten (joinWith newline (lines[tableLineIndex :=
                       str ''| '' @ columns ! 0 @ str '' | '' @ columns ! 1 @ str '' | ''
                         @ columns ! 2 @ str '' | '' @ newNotes @ str '' | '' @ columns ! 4
                         @ str '' |'']))
                   else Malformed)))"

text \<open>\<^verbatim>\<open>updateLogEntry\<close> (lines 1995-2063) on the vault: the new vault and the notices
  shown. The file name comes from \<^verbatim>\<open>getFormattedDate\<close>.\<close>

definition updateLogEntry ::
  "settings \<Rightarrow> jsdate option \<Rightarrow> jsdate \<Rightarrow> vault \<Rightarrow> jstring \<Rightarrow> jstring \<Rightarrow> jstring \<Rightarrow> jstring
     \<Rightarrow> vault \<times> notice list" where
  "updateLogEntry cfg currentDate now v startTime endTime tag newNotes =
     (let targetDate = targetDateOf currentDate now;
          dateString = getFormattedDate targetDate;
          fileName = dateString @ str ''.md'';
          fullPath = logFilePath cfg targetDate fileName
      in case v fullPath of
           None \<Rightarrow> (v, [DiaryFileMissing])
         | Some TFolder \<Rightarrow> (v, [UpdateFailed])
         | Some (TFile content) \<Rightarrow>
             (case updateContent content startTime endTime tag newNotes of
                NoHeading \<Rightarrow> (v, [])
              | Rewritten content' \<Rightarrow> (v(fullPath \<mapsto> TFile content'), [NotesUpdated])
              | Malformed \<Rightarrow> (v, [TableMalformed])
              | NoSuchRow \<Rightarrow> (v, [RecordNotFound])))"

subsection \<open>parseLogFile\<close>

text \<open>\<^verbatim>\<open>durationText.match(/(\d+)\<close>minutes\<^verbatim>\<open>/)\<close> followed by \<^verbatim>\<open>parseInt\<close> of the group: the
  leftmost position where a run of decimal digits is followed by the unit; the group is the
  whole run from that position.\<close>

fun durationMatch :: "jstring \<Rightarrow> nat option" where
  "durationMatch [] = None"
| "durationMatch (c # cs) =
     (if isDigit c \<and> startsWith (dropWhile isDigit cs) minutesUnit
      then Some (parseDigits (c # takeWhile isDigit cs))
      else durationMatch cs)"

text \<open>\<^verbatim>\<open>calculateTimeDifference\<close> (line 2270). \<open>timeOfDay\<close> is the number of seconds after
  local midnight that \<^verbatim>\<open>setHours(h, m, s)\<close> selects; fewer than three columns leave an
  argument undefined and the date invalid. Both dates are taken at the same instant (the
  millisecond between the two \<^verbatim>\<open>new Date()\<close> calls is not modelled) on a day without a
  clock change. \<^verbatim>\<open>Math.round\<close> rounds halves up.\<close>

definition timeOfDay :: "jstring \<Rightarrow> jsnum" where
  "timeOfDay t =
     (case map toNumber (splitOn colon t) of
        Num h # Num m # Num s # _ \<Rightarrow> Num (h * 3600 + m * 60 + s)
      | _ \<Rightarrow> NaN)"

definition calculateTimeDifference :: "jstring \<Rightarrow> jstring \<Rightarrow> jsnum" where
  "calculateTimeDifference start end =
     (case (timeOfDay start, timeOfDay end) of
        (Num a, Num b) \<Rightarrow> Num (((if b < a then b + 86400 else b) - a + 30) div 60)
      | _ \<Rightarrow> NaN)"

record entry =
  startTime :: jstring
  endTime :: jstring
  tag :: jstring
  duration :: jsnum

text \<open>The body of the loop of \<^verbatim>\<open>parseLogFile\<close> (lines 2532-2558) on one line: the entry
  the line contributes, if any.\<close>

definition parseRow :: "jstring \<Rightarrow> entry option" where
  "parseRow l =
     (let line = trim l in
      if line = [] \<or> \<not> startsWith line [pipe] then None
      else
        (let columns = columnsOf line in
         if 5 \<le> length columns \<and> columns ! 0 \<noteq> startTimeLabel
              \<and> \<not> includesStr (columns ! 0) (str ''---'')
         then Some \<lparr>startTime = columns ! 0, endTime = columns ! 1, tag = columns ! 2,
                     duration =
                       (case durationMatch (columns ! 4) of
                          Some n \<Rightarrow> Num (int n)
                        | None \<Rightarrow> calculateTimeDifference (columns ! 0) (columns ! 1))\<rparr>
         else None))"

text \<open>The loop itself: every line is looked at, a line that is not a row is passed over
  (\<^verbatim>\<open>continue\<close>).\<close>

fun parseRows :: "jstring list \<Rightarrow> entry list" where
  "parseRows [] = []"
| "parseRows (l # ls) =
     (case parseRow l of None \<Rightarrow> parseRows ls | Some e \<Rightarrow> e # parseRows ls)"

text \<open>\<^verbatim>\<open>parseLogFile\<close> (line 2511).\<close>

definition parseLogFile :: "jstring \<Rightarrow> entry list" where
  "parseLogFile content =
     (let lines = splitOn newline content in
      case findIndex (\<lambda>line. includesStr line tableHeading) lines of
        None \<Rightarrow> []
      | Some tableStartIndex \<Rightarrow> parseRows (drop (tableStartIndex + 2) lines))"

section \<open>Yearly statistics\<close>

text \<open>\<^verbatim>\<open>new Date(year, month, 1)\<close>, for a month from 0 to 11: local midnight of the first
  day of a month. The constructor takes a year from 0 to 99 for the year 1900 later
  (ECMAScript 21.4.2.1). The date of that moment in UTC depends on the time zone of the
  host, the parameter \<open>tz\<close> (the identity where local time is UTC).\<close>

type_synonym timezone = "int \<times> nat \<times> nat \<Rightarrow> int \<times> nat \<times> nat"

definition dateYear :: "int \<Rightarrow> int" where
  "dateYear year = (if 0 \<le> year \<and> year \<le> 99 then 1900 + year else year)"

definition newDate :: "timezone \<Rightarrow> int \<Rightarrow> nat \<Rightarrow> nat \<Rightarrow> jsdate" where
  "newDate tz year month day =
     (case tz (dateYear year, month, day) of
        (uy, um, ud) \<Rightarrow>
          \<lparr>getFullYear = dateYear year, getMonth = month, getDate = day,
           utcFullYear = uy, utcMonth = um, utcDate = ud\<rparr>)"

text \<open>\<^verbatim>\<open>!isNaN(date.getTime())\<close> for the first day of a month. The time value of a \<^verbatim>\<open>Date\<close>
  lies within 100,000,000 days of the first of January 1970 UTC, from the 20th of April of
  the year -271821 to the 13th of September of the year 275760; outside, the date is
  invalid. Local midnight is less than a day from midnight UTC, so in every time zone the
  first day of a month is a valid date from May -271821 to September 275760.\<close>

definition validFirstOfMonth :: "int \<Rightarrow> nat \<Rightarrow> bool" where
  "validFirstOfMonth year month =
     ((- 271821 < year \<or> (year = - 271821 \<and> 4 \<le> month))
      \<and> (year < 275760 \<or> (year = 275760 \<and> month \<le> 8)))"

text \<open>The \<^verbatim>\<open>'yearly'\<close> case of the switch in \<^verbatim>\<open>loadPeriodLogData\<close> (lines 2452-2460): the
  first day of each month of the current year, where that is a valid date. (The daily and
  weekly cases are not modelled.)\<close>

definition yearlyDatesToLoad :: "timezone \<Rightarrow> jsdate \<Rightarrow> jsdate list" where
  "yearlyDatesToLoad tz now =
     map (\<lambda>month. newDate tz (getFullYear now) month 1)
       (filter (\<lambda>month. validFirstOfMonth (dateYear (getFullYear now)) month) [0..<12])"

record logDay =
  date :: jsdate
  entries :: "entry list"

text \<open>The loop of lines 2467-2500 over \<^verbatim>\<open>datesToLoad\<close>: a date whose file exists
  contributes its parsed entries; a date without a file contributes nothing, and so does a
  path that holds a folder (the read fails and the error is caught inside the loop).\<close>

fun loadLogFiles :: "settings \<Rightarrow> vault \<Rightarrow> jsdate list \<Rightarrow> logDay list" where
  "loadLogFiles cfg v [] = []"
| "loadLogFiles cfg v (d # ds) =
     (let dateString = getFormattedDate d;
          fullPath = logFilePath cfg d (dateString @ str ''.md'')
      in case v fullPath of
           Some (TFile content) \<Rightarrow>
             \<lparr>date = d, entries = parseLogFile content\<rparr> # loadLogFiles cfg v ds
         | _ \<Rightarrow> loadLogFiles cfg v ds)"

definition loadPeriodLogData_yearly :: "timezone \<Rightarrow> settings \<Rightarrow> jsdate \<Rightarrow> vault \<Rightarrow> logDay list" where
  "loadPeriodLogData_yearly tz cfg now v = loadLogFiles cfg v (yearlyDatesToLoad tz now)"

text \<open>\<^verbatim>\<open>entries.reduce((sum, entry) => sum + entry.duration, 0)\<close>.\<close>

definition sumDurations :: "entry list \<Rightarrow> jsnum" where
  "sumDurations es = foldl jsadd (Num 0) (map duration es)"

text \<open>\<^verbatim>\<open>x > 0\<close> on a number; false for \<^verbatim>\<open>NaN\<close>.\<close>

fun positive :: "jsnum \<Rightarrow> bool" where
  "positive (Num n) = (0 < n)"
| "positive NaN = False"

record yearlyStats =
  totalMinutes :: jsnum
  sessionCount :: nat
  monthlyAvgMinutes :: jsnum
  monthlyData :: "jsnum list"

text \<open>The \<^verbatim>\<open>forEach\<close> of \<^verbatim>\<open>calculateYearlyStats\<close> (lines 2636-2643) over the loaded days,
  on the triple of the month buckets, the total and the session count. The bucket of a
  month is the element at the month's index (the \<^verbatim>\<open>month\<close> and \<^verbatim>\<open>monthName\<close> labels of an
  element are its index plus one and a locale name); it is assigned, not added to.\<close>

fun aggregateMonths ::
  "logDay list \<Rightarrow> jsnum list \<times> jsnum \<times> nat \<Rightarrow> jsnum list \<times> jsnum \<times> nat" where
  "aggregateMonths [] acc = acc"
| "aggregateMonths (m # ms) (buckets, minutes, sessions) =
     (let monthIndex = getMonth (date m);
          monthMinutes = sumDurations (entries m)
      in aggregateMonths ms
           (buckets[monthIndex := monthMinutes], jsadd minutes monthMinutes,
            sessions + length (entries m)))"

text \<open>\<^verbatim>\<open>calculateYearlyStats\<close> (line 2625). \<^verbatim>\<open>Math.round(total / active)\<close> on integers is
  \<open>(2 * total + active) div (2 * active)\<close>.\<close>

definition calculateYearlyStats :: "logDay list \<Rightarrow> yearlyStats" where
  "calculateYearlyStats logData =
     (case aggregateMonths logData (replicate 12 (Num 0), Num 0, 0) of
        (buckets, minutes, sessions) \<Rightarrow>
          (let activeMonths = length (filter positive buckets) in
           \<lparr>totalMinutes = minutes, sessionCount = sessions,
            monthlyAvgMinutes =
              (if 0 < activeMonths then
                 (case minutes of
                    Num t \<Rightarrow> Num ((2 * t + int activeMonths) div (2 * int activeMonths))
                  | NaN \<Rightarrow> NaN)
               else Num 0),
            monthlyData = buckets\<rparr>))"

section \<open>The timer\<close>

text \<open>What the timer does to the outside: a notice, the text of the timer display
  (\<^verbatim>\<open>updateTimerDisplay\<close>: the seconds left and the mode), and the call of
  \<^verbatim>\<open>autoSavePomodoroLog\<close>, which writes the log row, with the tag and the duration it
  records.\<close>

datatype effect =
    ShowNotice notice
  | UpdateTimerDisplay int bool
  | AutoSavePomodoroLog jstring int

text \<open>The fields of \<^verbatim>\<open>BreakView\<close> the timer uses, the tag selector of the page (its value
  and whether it is disabled), and the effects so far, oldest first. \<open>timerInterval\<close> tells
  whether an interval is registered and live. The field \<^verbatim>\<open>breakTime\<close> of the view is
  \<open>breakSeconds\<close> here, as the setting has the name already.\<close>

record timer =
  timeLeft :: int
  isRunning :: bool
  currentTag :: jstring
  isFocusMode :: bool
  isProcessingCompletion :: bool
  focusTime :: int
  breakSeconds :: int
  timerInterval :: bool
  tagSelectValue :: jstring
  tagSelectDisabled :: bool
  effects :: "effect list"

definition emit :: "effect \<Rightarrow> timer \<Rightarrow> timer" where
  "emit e s = s\<lparr>effects := effects s @ [e]\<rparr>"

text \<open>\<^verbatim>\<open>initializeTimerValues\<close> (line 1320). On an integer setting \<^verbatim>\<open>isNaN\<close> is false, so
  the fallback is taken for a value that is not positive.\<close>

definition initializeTimerValues :: "settings \<Rightarrow> timer \<Rightarrow> timer" where
  "initializeTimerValues cfg s =
     (if isFocusMode s then
        (let focusTime0 = workTime cfg;
             focusTime1 = (if focusTime0 \<le> 0 then DEFAULT_workTime else focusTime0);
             focusTime2 = max 1 focusTime1
         in s\<lparr>focusTime := focusTime2, timeLeft := focusTime2 * 60\<rparr>)
      else
        (let breakTime0 = breakTime cfg;
             breakTime1 = (if breakTime0 \<le> 0 then DEFAULT_breakTime else breakTime0);
             breakTime2 = max 1 breakTime1
         in s\<lparr>breakSeconds := breakTime2, timeLeft := breakTime2 * 60\<rparr>))"

definition updateTimerDisplay :: "timer \<Rightarrow> timer" where
  "updateTimerDisplay s = emit (UpdateTimerDisplay (timeLeft s) (isFocusMode s)) s"

text \<open>\<^verbatim>\<open>clearTimer\<close> (line 1688).\<close>

definition clearTimer :: "timer \<Rightarrow> timer" where
  "clearTimer s = s\<lparr>isRunning := False, timerInterval := False\<rparr>"

text \<open>The start of \<^verbatim>\<open>autoSavePomodoroLog\<close> (line 1738) runs inside the tick, before the mode
  changes: it reads the mode, the settings and the tag.\<close>

definition autoSavePomodoroLog :: "settings \<Rightarrow> timer \<Rightarrow> timer" where
  "autoSavePomodoroLog cfg s =
     (let durationMinutes = (if isFocusMode s then workTime cfg else breakTime cfg);
          tag = (if currentTag s \<noteq> [] then currentTag s
                 else [26410, 36873, 25321, 26631, 31614])
      in emit (AutoSavePomodoroLog tag durationMinutes) s)"

text \<open>Lines 1650-1651 of the interval callback: one second less, not below zero, and
  the display updated.\<close>

definition countDown :: "timer \<Rightarrow> timer" where
  "countDown s = updateTimerDisplay (s\<lparr>timeLeft := max 0 (timeLeft s - 1)\<rparr>)"

text \<open>The callback \<^verbatim>\<open>startTimer\<close> registers with \<^verbatim>\<open>setInterval\<close> (lines 1648-1684): one
  tick.\<close>

definition tick :: "settings \<Rightarrow> timer \<Rightarrow> timer" where
  "tick cfg s =
     (if \<not> isRunning s \<or> isProcessingCompletion s then s
      else
        (let s1 = countDown s in
         if \<not> isRunning s1 \<or> isProcessingCompletion s1 then s1
         else if timeLeft s1 = 0 \<and> \<not> isProcessingCompletion s1 then
           (let s2 = clearTimer (s1\<lparr>isProcessingCompletion := True\<rparr>);
                s3 = (if isFocusMode s2 then
                        updateTimerDisplay (initializeTimerValues cfg
                          ((autoSavePomodoroLog cfg (emit (ShowNotice FocusEnded) s2))
                             \<lparr>isFocusMode := False\<rparr>))
                      else
                        updateTimerDisplay (initializeTimerValues cfg
                          ((emit (ShowNotice BreakEnded) s2)\<lparr>isFocusMode := True\<rparr>)))
            in s3\<lparr>tagSelectDisabled := False\<rparr>)
         else s1))"

text \<open>\<^verbatim>\<open>startTimer\<close> (line 1622), up to the registration of the interval.\<close>

definition startTimer :: "settings \<Rightarrow> timer \<Rightarrow> timer" where
  "startTimer cfg s =
     (let s0 = s\<lparr>timerInterval := False\<rparr> in
      if isFocusMode s0 \<and> tagSelectValue s0 = [] then emit (ShowNotice SelectTagFirst) s0
      else
        (initializeTimerValues cfg (s0\<lparr>currentTag := tagSelectValue s0, isRunning := True\<rparr>))
          \<lparr>isProcessingCompletion := False, tagSelectDisabled := True, timerInterval := True\<rparr>)"

text \<open>\<^verbatim>\<open>pauseTimer\<close> (line 1696), \<^verbatim>\<open>skipBreak\<close> (line 1703) and \<^verbatim>\<open>toggleTimer\<close>
  (line 1614).\<close>

definition pauseTimer :: "timer \<Rightarrow> timer" where
  "pauseTimer s = emit (ShowNotice Paused) ((clearTimer s)\<lparr>isRunning := False\<rparr>)"

definition skipBreak :: "settings \<Rightarrow> timer \<Rightarrow> timer" where
  "skipBreak cfg s =
     (let s1 = clearTimer s;
          s2 = (if isFocusMode s1 then s1\<lparr>isFocusMode := False\<rparr> else s1\<lparr>isFocusMode := True\<rparr>);
          s3 = (updateTimerDisplay (initializeTimerValues cfg s2))\<lparr>isRunning := False\<rparr>
      in emit (ShowNotice (Skipped (isFocusMode s3))) s3)"

definition toggleTimer :: "settings \<Rightarrow> timer \<Rightarrow> timer" where
  "toggleTimer cfg s = (if isRunning s then pauseTimer s else startTimer cfg s)"

text \<open>The \<^verbatim>\<open>change\<close> listener of the tag selector (line 1867); a disabled selector takes no
  input.\<close>

definition selectTag :: "jstring \<Rightarrow> timer \<Rightarrow> timer" where
  "selectTag choice s =
     (if tagSelectDisabled s then s else s\<lparr>tagSelectValue := choice, currentTag := choice\<rparr>)"

text \<open>The view after the constructor (line 1290) and \<^verbatim>\<open>onOpen\<close>, which initialises the
  timer values (line 1430) before it renders the page and registers the listeners.\<close>

definition initialTimer :: "settings \<Rightarrow> timer" where
  "initialTimer cfg =
     initializeTimerValues cfg
       \<lparr>timeLeft = workTime cfg * 60, isRunning = False, currentTag = [], isFocusMode = True,
        isProcessingCompletion = False, focusTime = workTime cfg * 60,
        breakSeconds = breakTime cfg * 60, timerInterval = False, tagSelectValue = [],
        tagSelectDisabled = False, effects = []\<rparr>"

text \<open>The events of the page: a click on the start button, a click on the skip button, a
  choice in the tag selector, and a firing of the interval, which happens only while one
  is registered. The settings may have changed between any two events.\<close>

datatype event = ClickStart | ClickSkip | SelectTag jstring | Tick

fun step :: "settings \<Rightarrow> event \<Rightarrow> timer \<Rightarrow> timer" where
  "step cfg ClickStart s = toggleTimer cfg s"
| "step cfg ClickSkip s = skipBreak cfg s"
| "step cfg (SelectTag choice) s = selectTag choice s"
| "step cfg Tick s = (if timerInterval s then tick cfg s else s)"

inductive reachable :: "timer \<Rightarrow> bool" where
  initial: "reachable (initialTimer cfg)"
| next_event: "reachable s \<Longrightarrow> reachable (step cfg e s)"

text \<open>Several firings of the interval in a row, under the settings of each moment.\<close>

fun ticks :: "settings list \<Rightarrow> timer \<Rightarrow> timer" where
  "ticks [] s = s"
| "ticks (cfg # cfgs) s = ticks cfgs (tick cfg s)"

text \<open>How often the completion of a countdown was handled (one notice each) and how often
  the log write was called.\<close>

definition completions :: "timer \<Rightarrow> nat" where
  "completions s =
     length (filter (\<lambda>e. e = ShowNotice FocusEnded \<or> e = ShowNotice BreakEnded) (effects s))"

fun isLogWrite :: "effect \<Rightarrow> bool" where
  "isLogWrite (AutoSavePomodoroLog _ _) = True"
| "isLogWrite _ = False"

definition logWrites :: "timer \<Rightarrow> nat" where
  "logWrites s = length (filter isLogWrite (effects s))"

text \<open>The invariant of the timer: in a reachable state the seconds left are never negative, and a running timer has
  at least one second left, is not completing, and has its interval registered.\<close>

definition timer_inv :: "timer \<Rightarrow> bool" where
  "timer_inv s =
     (0 \<le> timeLeft s \<and>
      (isRunning s \<longrightarrow> 1 \<le> timeLeft s \<and> \<not> isProcessingCompletion s \<and> timerInterval s))"

section \<open>Example inputs\<close>

text \<open>The default settings of the plugin, with ASCII tags, and a running Focus session:
  the page after a tag was chosen and the start button clicked.\<close>

definition exampleSettings :: settings where
  "exampleSettings =
     \<lparr>workTime = 25, breakTime = 5, dateFormat = str ''YYYY-MM-DD'',
      diaryPath = str ''01Inbox/daily''\<rparr>"

definition taggedExample :: timer where
  "taggedExample = step exampleSettings (SelectTag (str ''work'')) (initialTimer exampleSettings)"

definition runningExample :: timer where
  "runningExample = step exampleSettings ClickStart taggedExample"

text \<open>A table with two rows and a line of prose between them.\<close>

definition firstRow :: jstring where
  "firstRow = logEntry (str ''09:00:00'') (str ''09:25:00'') (str ''work'') (str ''first'') 25"

definition secondRow :: jstring where
  "secondRow = logEntry (str ''10:00:00'') (str ''10:25:00'') (str ''read'') (str ''second'') 25"

definition tableLines :: "jstring list" where
  "tableLines = [tableHeading, [], headerRow, separatorRow, firstRow]"

definition interruptedTable :: jstring where
  "interruptedTable = joinWith newline (tableLines @ str ''a remark'' # [secondRow])"

text \<open>The 15th of January 2024, the same day in local time and in UTC; the settings with
  the other date format; a vault whose only file is a note without the record table at
  the path \<^verbatim>\<open>updateLogEntry\<close> reads; the arguments of a save.\<close>

definition exampleDate :: jsdate where
  "exampleDate =
     \<lparr>getFullYear = 2024, getMonth = 0, getDate = 15,
      utcFullYear = 2024, utcMonth = 0, utcDate = 15\<rparr>"

definition slashSettings :: settings where
  "slashSettings = exampleSettings\<lparr>dateFormat := str ''YYYY/MM/DD''\<rparr>"

definition plainNoteVault :: vault where
  "plainNoteVault =
     Map.empty(str ''01Inbox/daily/2024/01/2024-01-15.md'' \<mapsto> TFile (str ''# 2024-01-15''))"

definition emptyVault :: vault where
  "emptyVault = Map.empty"

definition savedVault :: vault where
  "savedVault =
     fst (saveLogEntry slashSettings None exampleDate emptyVault (str ''09:00:00'')
            (str ''09:25:00'') (str ''work'') (str ''first'') (Some 25))"

text \<open>The time zone of UTC, and a vault whose only file is the log of the 15th of January
  2024, with one row of 25 minutes.\<close>

definition utcZone :: timezone where
  "utcZone = (\<lambda>d. d)"

definition midMonthVault :: vault where
  "midMonthVault =
     Map.empty(str ''01Inbox/daily/2024/01/2024-01-15.md'' \<mapsto> TFile (joinWith newline tableLines))"

definition newYearVault :: vault where
  "newYearVault =
     Map.empty(str ''01Inbox/daily/2024/01/2024-01-01.md'' \<mapsto> TFile (joinWith newline tableLines))"

text \<open>The test of the duplicate check of \<open>saveLogEntry\<close> on one line (line 1822), and the
  lines of a document that pass it for a key, from the insert position on: the rows the
  check counts as rows of that key.\<close>

definition isDuplicateLine :: "jstring \<Rightarrow> jstring \<Rightarrow> bool" where
  "isDuplicateLine key l = (startsWith (trim l) [pipe] \<and> includesStr (trim l) key)"

definition duplicateRows :: "jstring \<Rightarrow> jstring \<Rightarrow> jstring list" where
  "duplicateRows key content =
     (let lines = splitOn newline content;
          insertIndex =
            (case findIndex (\<lambda>line. includesStr line headerRow) lines of
               None \<Rightarrow> 1 | Some headerIndex \<Rightarrow> headerIndex + 2)
      in filter (isDuplicateLine key) (drop insertIndex lines))"

text \<open>A tag with a line break in it, and a document that ends with the header row.\<close>

definition lineBreakTag :: jstring where
  "lineBreakTag = str ''a'' @ newline # str ''b''"

definition headerOnlyTable :: jstring where
  "headerOnlyTable = joinWith newline [tableHeading, headerRow]"

text \<open>A text that can stand in a cell of a table row as it is: not empty, without white
  space at either end, without a pipe and without a line break.\<close>

definition cellText :: "jstring \<Rightarrow> bool" where
  "cellText x = (x \<noteq> [] \<and> trim x = x \<and> pipe \<notin> set x \<and> newline \<notin> set x)"



text \<open>The data rows of a start time, an end time and a tag, as \<open>updateLogEntry\<close> finds
  them: the lines from the second line below the heading on (the lines \<open>parseLogFile\<close>
  reads as well) that pass the test of \<open>updateLogEntry\<close>, a table line of at least five
  cells, the first three of them the given ones.\<close>

definition matchingRows :: "jstring \<Rightarrow> jstring \<Rightarrow> jstring \<Rightarrow> jstring \<Rightarrow> jstring list" where
  "matchingRows startT endT tagT content =
     (let lines = splitOn newline content in
      case findIndex (\<lambda>line. includesStr line tableHeading) lines of
        None \<Rightarrow> []
      | Some tableStartIndex \<Rightarrow>
          filter (rowMatches startT endT tagT) (drop (tableStartIndex + 2) lines))"

text \<open>A table whose header row stands above the heading, with a row in between.\<close>

definition headingBelowTable :: jstring where
  "headingBelowTable = joinWith newline [headerRow, separatorRow, firstRow, tableHeading, [], []]"

text \<open>Seven in the morning of the 16th of January 2024 in a zone eight hours east of
  Greenwich, where UTC has eleven in the evening of the 15th; and the vault after a save
  at that moment, with the default settings, into an empty vault.\<close>

definition morningDate :: jsdate where
  "morningDate =
     \<lparr>getFullYear = 2024, getMonth = 0, getDate = 16,
      utcFullYear = 2024, utcMonth = 0, utcDate = 15\<rparr>"

definition morningVault :: vault where
  "morningVault =
     fst (saveLogEntry exampleSettings None morningDate emptyVault (str ''06:35:00'')
            (str ''07:00:00'') (str ''work'') (str ''first'') (Some 25))"

text \<open>A time zone east of Greenwich: at local midnight UTC still has the day before.\<close>

definition isLeapYear :: "int \<Rightarrow> bool" where
  "isLeapYear y = (y mod 4 = 0 \<and> (y mod 100 \<noteq> 0 \<or> y mod 400 = 0))"

definition daysInMonth :: "int \<Rightarrow> nat \<Rightarrow> nat" where
  "daysInMonth y m =
     (if m = 1 then (if isLeapYear y then 29 else 28)
      else if m = 3 \<or> m = 5 \<or> m = 8 \<or> m = 10 then 30 else 31)"

definition eastZone :: timezone where
  "eastZone =
     (\<lambda>(y, m, d).
        if 1 < d then (y, m, d - 1)
        else if 0 < m then (y, m - 1, daysInMonth y (m - 1))
        else (y - 1, 11, 31))"

text \<open>The first of January 2024 where local time is UTC; a vault whose only file is the log
  of that day as \<open>saveLogEntry\<close> names it under the format \<^verbatim>\<open>YYYY/MM/DD\<close>; a clock in the year
  999, one in the year 50, and a vault whose only file is the log of the first of January
  999 as \<open>saveLogEntry\<close> names it.\<close>

definition newYearsDay :: jsdate where
  "newYearsDay = newDate utcZone 2024 0 1"

definition slashNewYearVault :: vault where
  "slashNewYearVault =
     Map.empty(str ''01Inbox/daily/2024/01/2024/01/01.md'' \<mapsto> TFile (joinWith newline tableLines))"

definition year999 :: jsdate where
  "year999 = exampleDate\<lparr>getFullYear := 999\<rparr>"

definition year50 :: jsdate where
  "year50 = exampleDate\<lparr>getFullYear := 50\<rparr>"

definition year999Vault :: vault where
  "year999Vault =
     Map.empty(str ''01Inbox/daily/999/01/999-01-01.md'' \<mapsto> TFile (joinWith newline tableLines))"


section \<open>Timer: the countdown and its completion\<close>

lemmas timer_defs = tick_def countDown_def updateTimerDisplay_def emit_def clearTimer_def
  initializeTimerValues_def autoSavePomodoroLog_def startTimer_def pauseTimer_def skipBreak_def
  toggleTimer_def selectTag_def initialTimer_def DEFAULT_workTime_def DEFAULT_breakTime_def

lemma inv_initial: "timer_inv (initialTimer cfg)"
  by (simp add: timer_inv_def timer_defs Let_def)

lemma inv_step: "timer_inv s \<Longrightarrow> timer_inv (step cfg e s)"
  by (cases e) (auto simp: timer_inv_def timer_defs Let_def)

lemma reachable_inv: "reachable s \<Longrightarrow> timer_inv s"
  by (induction rule: reachable.induct) (simp_all add: inv_initial inv_step)

lemma tick_idle: "\<not> isRunning s \<or> isProcessingCompletion s \<Longrightarrow> tick cfg s = s"
  by (auto simp: tick_def)

lemma ticks_idle: "\<not> isRunning s \<or> isProcessingCompletion s \<Longrightarrow> ticks cfgs s = s"
  by (induction cfgs) (auto simp: tick_idle)

lemma tick_counting:
  assumes "isRunning s" "\<not> isProcessingCompletion s" "1 < timeLeft s"
  shows "timeLeft (tick cfg s) = timeLeft s - 1 \<and> isRunning (tick cfg s)
    \<and> \<not> isProcessingCompletion (tick cfg s) \<and> isFocusMode (tick cfg s) = isFocusMode s
    \<and> completions (tick cfg s) = completions s \<and> logWrites (tick cfg s) = logWrites s"
  using assms by (simp add: timer_defs Let_def completions_def logWrites_def)

lemma tick_completing:
  assumes "isRunning s" "\<not> isProcessingCompletion s" "timeLeft s = 1"
  shows "\<not> isRunning (tick cfg s) \<and> isProcessingCompletion (tick cfg s)
    \<and> isFocusMode (tick cfg s) = (\<not> isFocusMode s)
    \<and> completions (tick cfg s) = completions s + 1
    \<and> logWrites (tick cfg s) = logWrites s + (if isFocusMode s then 1 else 0)"
  using assms by (simp add: timer_defs Let_def completions_def logWrites_def)

lemma ticks_counting:
  "isRunning s \<Longrightarrow> \<not> isProcessingCompletion s \<Longrightarrow> int (length cfgs) < timeLeft s \<Longrightarrow>
   timeLeft (ticks cfgs s) = timeLeft s - int (length cfgs) \<and> isRunning (ticks cfgs s)
    \<and> \<not> isProcessingCompletion (ticks cfgs s) \<and> isFocusMode (ticks cfgs s) = isFocusMode s
    \<and> completions (ticks cfgs s) = completions s \<and> logWrites (ticks cfgs s) = logWrites s"
proof (induction cfgs arbitrary: s)
  case Nil
  then show ?case by simp
next
  case (Cons cfg cfgs)
  from Cons.prems have big: "1 < timeLeft s" by simp
  note t = tick_counting [OF Cons.prems(1) Cons.prems(2) big, of cfg]
  have "int (length cfgs) < timeLeft (tick cfg s)" using t Cons.prems(3) by simp
  with t Cons.IH [of "tick cfg s"] show ?case by simp
qed

lemma ticks_append: "ticks (xs @ ys) s = ticks ys (ticks xs s)"
  by (induction xs arbitrary: s) simp_all

lemma taggedExample_facts:
  "reachable taggedExample" "isFocusMode taggedExample" "tagSelectValue taggedExample \<noteq> []"
  unfolding taggedExample_def
  by (intro reachable.intros, simp_all add: timer_defs exampleSettings_def Let_def str_def)

lemma runningExample_facts:
  "reachable runningExample" "isRunning runningExample" "timeLeft runningExample = 1500"
  "isFocusMode runningExample" "\<not> isProcessingCompletion runningExample"
  "completions runningExample = 0" "logWrites runningExample = 0"
  unfolding runningExample_def taggedExample_def
  by (intro reachable.intros,
      simp_all add: timer_defs exampleSettings_def Let_def str_def completions_def logWrites_def)

text \<open>
  C1. A running timer of a reachable state with \<open>n\<close> seconds left, ticked \<open>n\<close> times
  (under whatever settings hold at each tick): the countdown of the last tick brings the
  seconds left to exactly 0; no completion is handled before that tick; after the \<open>n\<close>
  ticks the completion was handled exactly once more than before, and the log write was
  called exactly once more in Focus mode and not at all in Break mode; the completing flag
  is set, and any further ticks leave the state as it is. In any state whatever, a tick
  while the completing flag is set changes nothing.
\<close>

theorem tick_completes_exactly_once:
  assumes "reachable s" and "isRunning s" and "length cfgs = nat (timeLeft s)"
  shows "timeLeft (countDown (ticks (butlast cfgs) s)) = 0
    \<and> completions (ticks (butlast cfgs) s) = completions s
    \<and> completions (ticks cfgs s) = completions s + 1
    \<and> logWrites (ticks cfgs s) = logWrites s + (if isFocusMode s then 1 else 0)
    \<and> isProcessingCompletion (ticks cfgs s)
    \<and> ticks later (ticks cfgs s) = ticks cfgs s
    \<and> (isProcessingCompletion t \<longrightarrow> tick cfg t = t)"
proof -
  from reachable_inv [OF assms(1)] assms(2)
  have pos: "1 \<le> timeLeft s" and idle: "\<not> isProcessingCompletion s"
    by (simp_all add: timer_inv_def)
  from pos assms(3) have ne: "cfgs \<noteq> []" by auto
  define u where "u = ticks (butlast cfgs) s"
  have len: "int (length (butlast cfgs)) = timeLeft s - 1"
    using pos assms(3) by simp
  then have "int (length (butlast cfgs)) < timeLeft s" by simp
  from ticks_counting [OF assms(2) idle this] len
  have u: "timeLeft u = 1" "isRunning u" "\<not> isProcessingCompletion u"
    "isFocusMode u = isFocusMode s" "completions u = completions s" "logWrites u = logWrites s"
    by (simp_all add: u_def)
  have "ticks cfgs s = ticks [last cfgs] u"
    using ne ticks_append [of "butlast cfgs" "[last cfgs]" s] by (simp add: u_def)
  then have last: "ticks cfgs s = tick (last cfgs) u" by simp
  note c = tick_completing [OF u(2) u(3) u(1), of "last cfgs"]
  have zero: "timeLeft (countDown u) = 0"
    using u(1) by (simp add: countDown_def updateTimerDisplay_def emit_def)
  have stay: "ticks later (ticks cfgs s) = ticks cfgs s"
    using c last by (simp add: ticks_idle)
  show ?thesis
    using zero u c last stay tick_idle [of t cfg] by (simp add: u_def)
qed

theorem tick_completes_exactly_once_witness:
  "completions (ticks (replicate 1500 exampleSettings) runningExample) = 1
    \<and> logWrites (ticks (replicate 1500 exampleSettings) runningExample) = 1
    \<and> isProcessingCompletion (ticks (replicate 1500 exampleSettings) runningExample)"
  using tick_completes_exactly_once [of runningExample "replicate 1500 exampleSettings"]
    runningExample_facts by simp

text \<open>
  C7. For positive work and break minutes and a tag chosen in the selector, starting the
  timer in Focus mode sets the seconds left to the work minutes times 60 and sets the
  running flag.
\<close>

theorem startTimer_focus:
  assumes "0 < workTime cfg" and "0 < breakTime cfg"
    and "isFocusMode s" and "tagSelectValue s \<noteq> []"
  shows "timeLeft (startTimer cfg s) = workTime cfg * 60 \<and> isRunning (startTimer cfg s)"
  using assms by (simp add: timer_defs Let_def)

theorem startTimer_focus_witness:
  "timeLeft (startTimer exampleSettings taggedExample) = 1500
    \<and> isRunning (startTimer exampleSettings taggedExample)"
  using startTimer_focus [of exampleSettings taggedExample] taggedExample_facts
  by (simp add: exampleSettings_def)

text \<open>
  C5, as amended. In every reachable state the seconds left are an integer that is not
  negative. Across any one event, if the timer is running and not completing before and
  after it, the seconds left have not grown. The mode changes only on a click on the skip
  button, or on a tick whose countdown brings the seconds left to 0.
\<close>

theorem timer_invariants:
  assumes "reachable s"
  shows "0 \<le> timeLeft s
    \<and> (isRunning s \<and> \<not> isProcessingCompletion s \<and> isRunning (step cfg e s)
          \<and> \<not> isProcessingCompletion (step cfg e s)
        \<longrightarrow> timeLeft (step cfg e s) \<le> timeLeft s)
    \<and> (isFocusMode (step cfg e s) \<noteq> isFocusMode s
        \<longrightarrow> e = ClickSkip \<or> (e = Tick \<and> timeLeft (countDown s) = 0))"
proof -
  from reachable_inv [OF assms] have inv: "timer_inv s" .
  have nonneg: "0 \<le> timeLeft s" using inv by (simp add: timer_inv_def)
  have mono: "isRunning s \<and> \<not> isProcessingCompletion s \<and> isRunning (step cfg e s)
      \<and> \<not> isProcessingCompletion (step cfg e s) \<longrightarrow> timeLeft (step cfg e s) \<le> timeLeft s"
    using inv by (cases e) (auto simp: timer_inv_def timer_defs Let_def split: if_splits)
  have flip: "isFocusMode (step cfg e s) \<noteq> isFocusMode s
      \<longrightarrow> e = ClickSkip \<or> (e = Tick \<and> timeLeft (countDown s) = 0)"
    using inv by (cases e) (auto simp: timer_inv_def timer_defs Let_def split: if_splits)
  from nonneg mono flip show ?thesis by blast
qed

theorem timer_invariants_witness:
  "0 \<le> timeLeft runningExample
    \<and> timeLeft (step exampleSettings Tick runningExample) \<le> timeLeft runningExample
    \<and> isFocusMode (step exampleSettings ClickSkip runningExample) \<noteq> isFocusMode runningExample"
proof -
  have after: "isRunning (step exampleSettings Tick runningExample)"
    "\<not> isProcessingCompletion (step exampleSettings Tick runningExample)"
    "\<not> isFocusMode (step exampleSettings ClickSkip runningExample)"
    unfolding runningExample_def taggedExample_def
    by (simp_all add: timer_defs exampleSettings_def Let_def str_def)
  show ?thesis
    using timer_invariants [of runningExample exampleSettings Tick] runningExample_facts after
    by simp
qed

text \<open>The claim as it was stated fails on the skip button: in the running Focus session of
  the example, with 1500 seconds left, a click on it changes the mode to Break at once.\<close>

theorem mode_flip_counterexample:
  "reachable runningExample \<and> isRunning runningExample \<and> timeLeft runningExample = 1500
    \<and> isFocusMode runningExample
    \<and> \<not> isFocusMode (step exampleSettings ClickSkip runningExample)
    \<and> timeLeft (step exampleSettings ClickSkip runningExample) = 300"
proof -
  have "\<not> isFocusMode (step exampleSettings ClickSkip runningExample)"
    "timeLeft (step exampleSettings ClickSkip runningExample) = 300"
    unfolding runningExample_def taggedExample_def
    by (simp_all add: timer_defs exampleSettings_def Let_def str_def)
  with runningExample_facts show ?thesis by simp
qed

section \<open>Lists of lines\<close>

lemma splitOn_not_Nil [simp]: "splitOn c xs \<noteq> []"
  by (induction xs) (auto split: list.splits)

lemma splitOn_no_sep: "c \<notin> set xs \<Longrightarrow> splitOn c xs = [xs]"
  by (induction xs) auto

lemma splitOn_append_sep: "c \<notin> set a \<Longrightarrow> splitOn c (a @ c # b) = a # splitOn c b"
  by (induction a) auto

lemma splitOn_free: "l \<in> set (splitOn c xs) \<Longrightarrow> c \<notin> set l"
proof (induction xs arbitrary: l)
  case Nil
  then show ?case by simp
next
  case (Cons x xs)
  then show ?case
    by (cases "splitOn c xs") (auto split: if_splits)
qed

lemma joinWith_Cons: "ls \<noteq> [] \<Longrightarrow> joinWith c (l # ls) = l @ c # joinWith c ls"
  by (cases ls) simp_all

lemma joinWith_head: "joinWith c ((x # a) # ls) = x # joinWith c (a # ls)"
  by (cases ls) simp_all

lemma joinWith_splitOn: "joinWith c (splitOn c xs) = xs"
proof (induction xs)
  case Nil
  then show ?case by simp
next
  case (Cons x xs)
  then show ?case
    by (cases "splitOn c xs") (auto simp: joinWith_Cons joinWith_head simp del: joinWith.simps)
qed

lemma splitOn_joinWith:
  "ls \<noteq> [] \<Longrightarrow> (\<forall>l \<in> set ls. c \<notin> set l) \<Longrightarrow> splitOn c (joinWith c ls) = ls"
proof (induction ls)
  case Nil
  then show ?case by simp
next
  case (Cons l ls)
  show ?case
  proof (cases ls)
    case Nil
    with Cons.prems show ?thesis by (simp add: splitOn_no_sep)
  next
    case (Cons m ms)
    with Cons.prems Cons.IH show ?thesis
      by (simp add: splitOn_append_sep)
  qed
qed

lemma startsWith_append [simp]: "startsWith (p @ r) p"
  by (induction p) auto

lemma startsWith_iff: "startsWith s p \<longleftrightarrow> (\<exists>r. s = p @ r)"
proof (induction s p rule: startsWith.induct)
  case (1 s)
  then show ?case by simp
next
  case (2 p ps)
  then show ?case by simp
next
  case (3 x xs p ps)
  then show ?case by auto
qed

lemma includesStr_iff: "includesStr s p \<longleftrightarrow> (\<exists>a b. s = a @ p @ b)"
proof (induction s)
  case Nil
  then show ?case by auto
next
  case (Cons x xs)
  show ?case
  proof
    assume "includesStr (x # xs) p"
    then consider "startsWith (x # xs) p" | "includesStr xs p" by auto
    then show "\<exists>a b. x # xs = a @ p @ b"
    proof cases
      case 1
      then obtain r where "x # xs = p @ r" by (auto simp: startsWith_iff)
      then have "x # xs = [] @ p @ r" by simp
      then show ?thesis by blast
    next
      case 2
      with Cons.IH obtain a b where "xs = a @ p @ b" by auto
      then have "x # xs = (x # a) @ p @ b" by simp
      then show ?thesis by blast
    qed
  next
    assume "\<exists>a b. x # xs = a @ p @ b"
    then obtain a b where ab: "x # xs = a @ p @ b" by auto
    show "includesStr (x # xs) p"
    proof (cases a)
      case Nil
      with ab have "startsWith (x # xs) p" by (auto simp: startsWith_iff)
      then show ?thesis by simp
    next
      case (Cons y ys)
      with ab have "xs = ys @ p @ b" by simp
      with Cons.IH have "includesStr xs p" by auto
      then show ?thesis by simp
    qed
  qed
qed

lemma findIndex_None: "findIndex P xs = None \<longleftrightarrow> (\<forall>x \<in> set xs. \<not> P x)"
  by (induction xs) auto

lemma findIndex_Some:
  "findIndex P xs = Some i \<Longrightarrow> i < length xs \<and> P (xs ! i) \<and> (\<forall>j < i. \<not> P (xs ! j))"
proof (induction xs arbitrary: i)
  case Nil
  then show ?case by simp
next
  case (Cons x xs)
  show ?case
  proof (cases "P x")
    case True
    with Cons.prems show ?thesis by simp
  next
    case False
    with Cons.prems obtain k where k: "findIndex P xs = Some k" "i = Suc k" by auto
    from Cons.IH [OF k(1)] False k(2) show ?thesis
      by (auto simp: nth_Cons split: nat.splits)
  qed
qed

lemma findIndex_append: "findIndex P xs = Some i \<Longrightarrow> findIndex P (xs @ ys) = Some i"
  by (induction xs arbitrary: i) (auto split: if_splits)

lemma parseRows_append: "parseRows (xs @ ys) = parseRows xs @ parseRows ys"
  by (induction xs) (auto split: option.splits)

lemma parseRow_non_table: "\<not> startsWith (trim l) [pipe] \<Longrightarrow> parseRow l = None"
  by (simp add: parseRow_def Let_def)

lemma parseLogFile_lines:
  assumes "ls \<noteq> []" and "\<forall>l \<in> set ls. newline \<notin> set l"
  shows "parseLogFile (joinWith newline ls) =
    (case findIndex (\<lambda>line. includesStr line tableHeading) ls of
       None \<Rightarrow> [] | Some i \<Rightarrow> parseRows (drop (i + 2) ls))"
  using assms by (simp add: parseLogFile_def splitOn_joinWith)

lemmas str_defs = str_def tableHeading_def headerRow_def separatorRow_def minutesUnit_def startTimeLabel_def
lemmas codec_defs = parseLogFile_def parseRow_def columnsOf_def trim_def isWhiteSpace_def isDigit_def
   parseDigits_def logEntry_def showInt_def showMagnitude_def digitChar_def Let_def

lemma showNat_25: "showNat 25 = [50, 53]"
  by (simp add: showNat.simps digitChar_def)


lemma exponentForm_example: "exponentForm 1000000000000000000000 = [49, 101, 43, 50, 49]"
  by (simp add: exponentForm_def showNat.simps digitChar_def)

lemma firstRow_eq: "firstRow = str ''| 09:00:00 | 09:25:00 | work | first | 25'' @ minutesUnit @ str '' |''"
  unfolding firstRow_def logEntry_def
  by (simp add: str_defs showInt_def showMagnitude_def showNat_25)

section \<open>parseLogFile\<close>

text \<open>
  C4, as amended. \<open>parseLogFile\<close> does not stop at a line that does not begin with the
  delimiter: it passes over the line and goes on. For a document given by its lines, with
  the heading in the part \<open>pre\<close> and at least two lines from the heading to the end of
  \<open>pre\<close>, a following line \<open>l\<close> that does not begin with the delimiter contributes
  nothing, and every line after it contributes the entry it would contribute on its own.
\<close>

theorem parseLogFile_passes_over_other_lines:
  assumes "findIndex (\<lambda>line. includesStr line tableHeading) pre = Some i"
    and "i + 2 \<le> length pre"
    and "\<forall>x \<in> set (pre @ l # post). newline \<notin> set x"
    and "\<not> startsWith (trim l) [pipe]"
  shows "parseLogFile (joinWith newline (pre @ l # post))
    = parseLogFile (joinWith newline pre) @ parseRows post"
proof -
  from assms(2) have ne: "pre \<noteq> []" by auto
  have a: "parseLogFile (joinWith newline pre) = parseRows (drop (i + 2) pre)"
    using parseLogFile_lines [of pre] ne assms(1,3) by simp
  have "parseLogFile (joinWith newline (pre @ l # post))
      = parseRows (drop (i + 2) (pre @ l # post))"
    using parseLogFile_lines [of "pre @ l # post"] assms(3) findIndex_append [OF assms(1)]
    by simp
  also have "\<dots> = parseRows (drop (i + 2) pre) @ parseRows (l # post)"
    using assms(2) by (simp add: parseRows_append)
  also have "\<dots> = parseRows (drop (i + 2) pre) @ parseRows post"
    using assms(4) by (simp add: parseRow_non_table)
  finally show ?thesis using a by simp
qed

text \<open>The claim as it was stated fails on a table with a line of prose between two rows:
  the row after that line is parsed as well.\<close>

theorem parse_goes_on_counterexample:
  "parseLogFile interruptedTable =
     [\<lparr>startTime = str ''09:00:00'', endTime = str ''09:25:00'', tag = str ''work'',
        duration = Num 25\<rparr>,
      \<lparr>startTime = str ''10:00:00'', endTime = str ''10:25:00'', tag = str ''read'',
        duration = Num 25\<rparr>]"
  unfolding interruptedTable_def tableLines_def firstRow_def secondRow_def
  by (simp add: str_defs codec_defs showNat_25)


lemma tableLines_facts:
  "findIndex (\<lambda>line. includesStr line tableHeading) tableLines = Some 0"
  "\<forall>x \<in> set (tableLines @ str ''a remark'' # [secondRow]). newline \<notin> set x"
  "\<not> startsWith (trim (str ''a remark'')) [pipe]"
  unfolding tableLines_def firstRow_def secondRow_def
  by (simp_all add: str_defs codec_defs showNat_25)

theorem parseLogFile_passes_over_other_lines_witness:
  "parseLogFile interruptedTable = parseLogFile (joinWith newline tableLines) @ parseRows [secondRow]"
  using parseLogFile_passes_over_other_lines [of tableLines 0 "str ''a remark''" "[secondRow]"]
    tableLines_facts
  by (simp add: interruptedTable_def tableLines_def)

section \<open>Paths and the vault\<close>

lemma str_eq_iff [simp]: "str a = str b \<longleftrightarrow> a = b"
  by (simp add: str_def inj_map_eq_map inj_on_def)

lemma str_Nil_iff [simp]: "str a = [] \<longleftrightarrow> a = []"
  by (simp add: str_def)

lemma showNat_examples:
  "showNat (Suc 0) = [49]" "showNat 15 = [49, 53]" "showNat 2024 = [50, 48, 50, 52]"
  by (simp_all add: showNat.simps digitChar_def)

lemmas path_defs = logFilePath_def getFileNameDate_def getFormattedDate_def isoYear_def
  padStart_def normalizeSlashes_def endsWith_def beforeLastSlash_def targetDateOf_def
  showInt_def showMagnitude_def exampleDate_def exampleSettings_def slashSettings_def

lemma example_paths:
  "getFileNameDate exampleSettings exampleDate = str ''2024-01-15''"
  "getFileNameDate slashSettings exampleDate = str ''2024/01/15''"
  "getFormattedDate exampleDate = str ''2024-01-15''"
  "logFilePath slashSettings exampleDate (str ''2024/01/15'' @ str ''.md'')
     = str ''01Inbox/daily/2024/01/2024/01/15.md''"
  "logFilePath slashSettings exampleDate (str ''2024-01-15'' @ str ''.md'')
     = str ''01Inbox/daily/2024/01/2024-01-15.md''"
  "logFilePath exampleSettings exampleDate (str ''2024-01-15'' @ str ''.md'')
     = str ''01Inbox/daily/2024/01/2024-01-15.md''"
  by (simp_all add: path_defs showNat_examples str_def Let_def)

lemma updateContent_no_row:
  assumes "findIndex (\<lambda>line. includesStr line tableHeading) (splitOn newline content) = Some i"
    and "\<forall>l \<in> set (drop (i + 2) (splitOn newline content)). \<not> rowMatches startT endT tagT l"
  shows "updateContent content startT endT tagT newNotes = NoSuchRow"
proof -
  from assms(2)
  have "findIndex (rowMatches startT endT tagT) (drop (i + 2) (splitOn newline content)) = None"
    by (simp add: findIndex_None)
  with assms(1) show ?thesis by (simp add: updateContent_def Let_def)
qed

text \<open>With the heading in the file and no row for the key, \<open>updateLogEntry\<close> leaves the
  vault as it is and reports that the record was not found.\<close>

lemma updateLogEntry_not_found:
  assumes "v (logFilePath cfg (targetDateOf currentDate now)
               (getFormattedDate (targetDateOf currentDate now) @ str ''.md'')) = Some (TFile content)"
    and "findIndex (\<lambda>line. includesStr line tableHeading) (splitOn newline content) = Some i"
    and "\<forall>l \<in> set (drop (i + 2) (splitOn newline content)). \<not> rowMatches startT endT tagT l"
  shows "updateLogEntry cfg currentDate now v startT endT tagT newNotes = (v, [RecordNotFound])"
  using assms(1) updateContent_no_row [OF assms(2,3)]
  by (simp add: updateLogEntry_def Let_def)

text \<open>
  C6. The claim holds where the file has the heading (\<open>updateLogEntry_not_found\<close>), and
  the content is unchanged in every case without a matching row. Where the file has no
  heading, the code returns at line 2023 without any notice: on a vault whose file at the
  path is a plain note, nothing is reported, although no row matches the key.
\<close>

theorem updateLogEntry_silent_without_heading:
  "updateLogEntry exampleSettings None exampleDate plainNoteVault (str ''09:00:00'')
     (str ''09:25:00'') (str ''work'') (str ''new notes'') = (plainNoteVault, [])"
  unfolding updateLogEntry_def targetDateOf_def Let_def
  by (simp add: example_paths) (simp add: plainNoteVault_def updateContent_def str_defs)

lemma saveLogEntry_content:
  assumes "targetDate = targetDateOf currentDate now"
    and "dateString = getFileNameDate cfg targetDate"
    and "fullPath = logFilePath cfg targetDate (dateString @ str ''.md'')"
    and "(if beforeLastSlash fullPath \<noteq> [] \<and> v (beforeLastSlash fullPath) = None
          then createDirectoryRecursive v (beforeLastSlash fullPath) else Inr v) = Inr v1"
    and "v1 fullPath \<noteq> Some TFolder"
  shows "saveLogEntry cfg currentDate now v startT endT tagT notes durationMinutes =
    (v1(fullPath \<mapsto> TFile (saveLogContent cfg dateString (fileText (v1 fullPath))
           startT endT tagT notes durationMinutes)),
     [RecordSaved tagT durationMinutes])"
proof (cases "v1 fullPath")
  case None
  then show ?thesis
    using assms(4)
    unfolding saveLogEntry_def saveLogContent_def assms(1,2,3) [symmetric] Let_def
    by (simp add: fileText_def split: option.splits)
next
  case (Some n)
  with assms(5) obtain c where c: "v1 fullPath = Some (TFile c)" by (cases n) auto
  then have same: "v1(fullPath \<mapsto> TFile c) = v1" by (simp add: fun_upd_idem)
  show ?thesis
    using assms(4) c same
    unfolding saveLogEntry_def saveLogContent_def assms(1,2,3) [symmetric] Let_def
    by (simp add: fileText_def ensureTable_def split: option.splits)
qed


lemma example_folders:
  "beforeLastSlash (str ''01Inbox/daily/2024/01/2024/01/15.md'') = str ''01Inbox/daily/2024/01/2024/01''"
  "createDirectoryRecursive Map.empty (str ''01Inbox/daily/2024/01/2024/01'') =
     Inr (Map.empty
       (str ''01Inbox'' \<mapsto> TFolder,
        str ''01Inbox/daily'' \<mapsto> TFolder,
        str ''01Inbox/daily/2024'' \<mapsto> TFolder,
        str ''01Inbox/daily/2024/01'' \<mapsto> TFolder,
        str ''01Inbox/daily/2024/01/2024'' \<mapsto> TFolder,
        str ''01Inbox/daily/2024/01/2024/01'' \<mapsto> TFolder))"
  by (simp_all add: beforeLastSlash_def createDirectoryRecursive_def str_def)

lemma savedVault_eq:
  "savedVault =
     (Map.empty
       (str ''01Inbox'' \<mapsto> TFolder,
        str ''01Inbox/daily'' \<mapsto> TFolder,
        str ''01Inbox/daily/2024'' \<mapsto> TFolder,
        str ''01Inbox/daily/2024/01'' \<mapsto> TFolder,
        str ''01Inbox/daily/2024/01/2024'' \<mapsto> TFolder,
        str ''01Inbox/daily/2024/01/2024/01'' \<mapsto> TFolder,
        str ''01Inbox/daily/2024/01/2024/01/15.md'' \<mapsto>
          TFile (saveLogContent slashSettings (str ''2024/01/15'') None (str ''09:00:00'')
            (str ''09:25:00'') (str ''work'') (str ''first'') (Some 25))))"
proof -
  let ?v1 = "Map.empty
       (str ''01Inbox'' \<mapsto> TFolder,
        str ''01Inbox/daily'' \<mapsto> TFolder,
        str ''01Inbox/daily/2024'' \<mapsto> TFolder,
        str ''01Inbox/daily/2024/01'' \<mapsto> TFolder,
        str ''01Inbox/daily/2024/01/2024'' \<mapsto> TFolder,
        str ''01Inbox/daily/2024/01/2024/01'' \<mapsto> TFolder)"
  have vacant: "?v1 (str ''01Inbox/daily/2024/01/2024/01/15.md'') = None"
    by simp
  have dirs: "(if beforeLastSlash (str ''01Inbox/daily/2024/01/2024/01/15.md'') \<noteq> []
          \<and> emptyVault (beforeLastSlash (str ''01Inbox/daily/2024/01/2024/01/15.md'')) = None
        then createDirectoryRecursive emptyVault
               (beforeLastSlash (str ''01Inbox/daily/2024/01/2024/01/15.md''))
        else Inr emptyVault) = Inr ?v1"
    by (simp add: example_folders emptyVault_def)
  have "saveLogEntry slashSettings None exampleDate emptyVault (str ''09:00:00'')
          (str ''09:25:00'') (str ''work'') (str ''first'') (Some 25) =
        (?v1(str ''01Inbox/daily/2024/01/2024/01/15.md'' \<mapsto>
           TFile (saveLogContent slashSettings (str ''2024/01/15'')
             (fileText (?v1 (str ''01Inbox/daily/2024/01/2024/01/15.md''))) (str ''09:00:00'')
             (str ''09:25:00'') (str ''work'') (str ''first'') (Some 25))),
         [RecordSaved (str ''work'') (Some 25)])"
    by (rule saveLogEntry_content [where targetDate = exampleDate])
       (simp_all add: targetDateOf_def example_paths dirs vacant)
  then show ?thesis
    by (simp add: savedVault_def vacant fileText_def)
qed

text \<open>With the format \<^verbatim>\<open>YYYY/MM/DD\<close>, a save on the 15th of January 2024 into an empty
  vault writes \<^verbatim>\<open>01Inbox/daily/2024/01/2024/01/15.md\<close>; the update of the notes of that very
  entry looks for \<^verbatim>\<open>01Inbox/daily/2024/01/2024-01-15.md\<close>, finds no file there, reports that
  the diary file does not exist, and leaves the vault as it is.\<close>

lemma example_update_misses_file:
  "getFileNameDate exampleSettings exampleDate = str ''2024-01-15''
    \<and> getFileNameDate slashSettings exampleDate = str ''2024/01/15''
    \<and> getFormattedDate exampleDate = str ''2024-01-15''
    \<and> savedVault (str ''01Inbox/daily/2024/01/2024/01/15.md'') \<noteq> None
    \<and> savedVault (str ''01Inbox/daily/2024/01/2024-01-15.md'') = None
    \<and> updateLogEntry slashSettings None exampleDate savedVault (str ''09:00:00'')
          (str ''09:25:00'') (str ''work'') (str ''new notes'') = (savedVault, [DiaryFileMissing])"
proof -
  have wrote: "savedVault (str ''01Inbox/daily/2024/01/2024/01/15.md'') \<noteq> None"
    and absent: "savedVault (str ''01Inbox/daily/2024/01/2024-01-15.md'') = None"
    by (simp_all add: savedVault_eq)
  have "updateLogEntry slashSettings None exampleDate savedVault (str ''09:00:00'')
          (str ''09:25:00'') (str ''work'') (str ''new notes'') = (savedVault, [DiaryFileMissing])"
    unfolding updateLogEntry_def targetDateOf_def Let_def
    by (simp add: example_paths absent)
  with wrote absent example_paths show ?thesis by simp
qed

section \<open>Yearly statistics: which files are read\<close>

lemma aggregate_length:
  "length (fst (aggregateMonths days (b, t, c))) = length b"
  by (induction days arbitrary: b t c) (simp_all add: Let_def)

lemma aggregate_other_month:
  "k \<notin> getMonth ` date ` set days \<Longrightarrow> fst (aggregateMonths days (b, t, c)) ! k = b ! k"
  by (induction days arbitrary: b t c) (auto simp: Let_def)

lemma aggregate_month:
  assumes "m \<in> set days" and "distinct (map (\<lambda>a. getMonth (date a)) days)"
    and "getMonth (date m) < length b"
  shows "fst (aggregateMonths days (b, t, c)) ! getMonth (date m) = sumDurations (entries m)"
  using assms
proof (induction days arbitrary: b t c)
  case Nil
  then show ?case by simp
next
  case (Cons d days)
  show ?case
  proof (cases "m = d")
    case True
    with Cons.prems have "getMonth (date d) \<notin> getMonth ` date ` set days" by auto
    with True Cons.prems(3) show ?thesis
      by (simp add: Let_def aggregate_other_month)
  next
    case False
    with Cons.prems have "m \<in> set days" "distinct (map (\<lambda>a. getMonth (date a)) days)" by auto
    with Cons.IH Cons.prems(3) show ?thesis by (simp add: Let_def)
  qed
qed

lemma loadLogFiles_dates:
  "set (map date (loadLogFiles cfg v ds)) \<subseteq> set ds"
  by (induction ds) (auto simp: Let_def split: option.splits node.splits)

lemma loadLogFiles_distinct:
  "distinct (map getMonth ds) \<Longrightarrow> distinct (map (\<lambda>a. getMonth (date a)) (loadLogFiles cfg v ds))"
proof (induction ds)
  case Nil
  then show ?case by simp
next
  case (Cons d ds)
  have "getMonth ` date ` set (loadLogFiles cfg v ds) \<subseteq> getMonth ` set ds"
    using loadLogFiles_dates [of cfg v ds] by auto
  with Cons show ?case
    by (auto simp: Let_def split: option.splits node.splits)
qed

lemma loadLogFiles_present:
  "d \<in> set ds \<Longrightarrow> v (logFilePath cfg d (getFormattedDate d @ str ''.md'')) = Some (TFile content)
    \<Longrightarrow> \<lparr>date = d, entries = parseLogFile content\<rparr> \<in> set (loadLogFiles cfg v ds)"
  by (induction ds) (auto simp: Let_def split: option.splits node.splits)

lemma loadLogFiles_absent:
  "\<forall>content. v (logFilePath cfg d (getFormattedDate d @ str ''.md'')) \<noteq> Some (TFile content)
    \<Longrightarrow> d \<notin> date ` set (loadLogFiles cfg v ds)"
  by (induction ds) (auto simp: Let_def split: option.splits node.splits)

lemma newDate_fields:
  "getFullYear (newDate tz y m d) = dateYear y" "getMonth (newDate tz y m d) = m"
  "getDate (newDate tz y m d) = d"
  by (simp_all add: newDate_def split: prod.splits)

text \<open>From the year 100 to the year 275759 the constructor takes the year as it is and
  every first of a month is a valid date.\<close>

lemma dateYear_plain: "100 \<le> y \<Longrightarrow> dateYear y = y"
  by (simp add: dateYear_def)

lemma yearly_dates:
  assumes "100 \<le> getFullYear now" and "getFullYear now \<le> 275759"
  shows "yearlyDatesToLoad tz now = map (\<lambda>month. newDate tz (getFullYear now) month 1) [0..<12]"
proof -
  have "filter (\<lambda>month. validFirstOfMonth (dateYear (getFullYear now)) month) [0..<12] = [0..<12]"
    using assms by (simp add: validFirstOfMonth_def dateYear_plain)
  then show ?thesis by (simp add: yearlyDatesToLoad_def)
qed

lemma yearly_months:
  "100 \<le> getFullYear now \<Longrightarrow> getFullYear now \<le> 275759
    \<Longrightarrow> map getMonth (yearlyDatesToLoad tz now) = [0..<12]"
  by (simp add: yearly_dates newDate_fields comp_def)

lemma upt_12: "[0..<12] = [0, 1, 2, 3, 4, 5, 6, 7, 8, 9, 10, 11]"
  by (simp add: upt_rec)

lemma showNat_months:
  "showNat 1 = [49]" "showNat 2 = [50]" "showNat 3 = [51]" "showNat 4 = [52]" "showNat 5 = [53]"
  "showNat 6 = [54]" "showNat 7 = [55]" "showNat 8 = [56]" "showNat 9 = [57]"
  "showNat 10 = [49, 48]" "showNat 11 = [49, 49]" "showNat 12 = [49, 50]"
  by (simp_all add: showNat.simps digitChar_def del: One_nat_def)

lemma tableLines_parsed:
  "parseLogFile (joinWith newline tableLines) =
     [\<lparr>startTime = str ''09:00:00'', endTime = str ''09:25:00'', tag = str ''work'',
        duration = Num 25\<rparr>]"
  unfolding tableLines_def firstRow_def
  by (simp add: str_defs codec_defs showNat_25)

lemma yearly_paths:
  "map (\<lambda>d. logFilePath exampleSettings d (getFormattedDate d @ str ''.md''))
     (yearlyDatesToLoad utcZone exampleDate) =
   [str ''01Inbox/daily/2024/01/2024-01-01.md'', str ''01Inbox/daily/2024/02/2024-02-01.md'',
    str ''01Inbox/daily/2024/03/2024-03-01.md'', str ''01Inbox/daily/2024/04/2024-04-01.md'',
    str ''01Inbox/daily/2024/05/2024-05-01.md'', str ''01Inbox/daily/2024/06/2024-06-01.md'',
    str ''01Inbox/daily/2024/07/2024-07-01.md'', str ''01Inbox/daily/2024/08/2024-08-01.md'',
    str ''01Inbox/daily/2024/09/2024-09-01.md'', str ''01Inbox/daily/2024/10/2024-10-01.md'',
    str ''01Inbox/daily/2024/11/2024-11-01.md'', str ''01Inbox/daily/2024/12/2024-12-01.md'']"
  apply (simp add: yearlyDatesToLoad_def upt_12 newDate_def dateYear_def validFirstOfMonth_def
      utcZone_def logFilePath_def
      getFormattedDate_def isoYear_def padStart_def normalizeSlashes_def endsWith_def
      showInt_def showMagnitude_def exampleDate_def exampleSettings_def showNat_examples showNat_months
      str_def Let_def del: One_nat_def)
  apply simp
  done

lemma loadLogFiles_nothing:
  "\<forall>d \<in> set ds. v (logFilePath cfg d (getFormattedDate d @ str ''.md'')) = None
    \<Longrightarrow> loadLogFiles cfg v ds = []"
  by (induction ds) (simp_all add: Let_def)

lemma showNat_four_digits: "1000 \<le> n \<Longrightarrow> 4 \<le> length (showNat n)"
proof -
  assume n: "1000 \<le> n"
  have step: "10 \<le> k \<Longrightarrow> length (showNat k) = Suc (length (showNat (k div 10)))" for k
    by (subst showNat.simps) simp
  have "showNat (n div 10 div 10 div 10) \<noteq> []" by (subst showNat.simps) simp
  then have "Suc 0 \<le> length (showNat (n div 10 div 10 div 10))"
    by (cases "showNat (n div 10 div 10 div 10)") simp_all
  moreover have "10 \<le> n" "10 \<le> n div 10" "10 \<le> n div 10 div 10" using n by simp_all
  ultimately show ?thesis by (simp add: step)
qed

text \<open>Where the two formatters give a date the same name: a year of four digits, a format
  other than \<^verbatim>\<open>YYYY/MM/DD\<close>, and a moment whose date in UTC is its local date.\<close>

lemma formatters_agree:
  assumes "1000 \<le> getFullYear d" and "getFullYear d \<le> 9999"
    and "dateFormat cfg \<noteq> str ''YYYY/MM/DD''"
    and "utcFullYear d = getFullYear d" and "utcMonth d = getMonth d" and "utcDate d = getDate d"
  shows "getFormattedDate d = getFileNameDate cfg d"
proof -
  have "1000 \<le> nat (getFullYear d)" using assms(1) by simp
  then have "4 \<le> length (showNat (nat (getFullYear d)))" by (rule showNat_four_digits)
  then have pad: "padStart 4 (showNat (nat (getFullYear d))) = showNat (nat (getFullYear d))"
    by (simp add: padStart_def)
  have "nat (getFullYear d) < 10 ^ 21" using assms(2) by simp
  then have year: "showInt (getFullYear d) = showNat (nat (getFullYear d))"
    using assms(1) by (simp add: showInt_def showMagnitude_def)
  show ?thesis
    using assms pad year
    by (simp add: getFormattedDate_def getFileNameDate_def isoYear_def Let_def)
qed

text \<open>The file behind a month's bucket, in every time zone and under every setting: the
  loader names it by \<open>getFormattedDate\<close>, the UTC date of the local midnight of the month's
  first day, under the folders of the local year and month.\<close>

lemma yearly_bucket_file:
  assumes "k < 12" and "100 \<le> getFullYear now" and "getFullYear now \<le> 275759"
    and "d = yearlyDatesToLoad tz now ! k"
  shows "length (yearlyDatesToLoad tz now) = 12
    \<and> getFullYear d = getFullYear now \<and> getMonth d = k \<and> getDate d = 1
    \<and> monthlyData (calculateYearlyStats (loadPeriodLogData_yearly tz cfg now v)) ! k =
        (case v (logFilePath cfg d (getFormattedDate d @ str ''.md'')) of
           Some (TFile content) \<Rightarrow> sumDurations (parseLogFile content)
         | _ \<Rightarrow> Num 0)"
proof -
  let ?ds = "yearlyDatesToLoad tz now"
  let ?days = "loadLogFiles cfg v ?ds"
  note dates = yearly_dates [OF assms(2,3), of tz]
  have len: "length ?ds = 12" by (simp add: dates)
  have d: "d = newDate tz (getFullYear now) k 1"
    using assms(1,4) by (simp add: dates)
  then have fields: "getFullYear d = getFullYear now" "getMonth d = k" "getDate d = 1"
    using assms(2) by (simp_all add: newDate_fields dateYear_plain)
  have mem: "d \<in> set ?ds" using assms(1,4) len by simp
  have dist: "distinct (map (\<lambda>a. getMonth (date a)) ?days)"
    by (rule loadLogFiles_distinct) (simp add: yearly_months [OF assms(2,3)])
  obtain b t c where agg: "aggregateMonths ?days (replicate 12 (Num 0), Num 0, 0) = (b, t, c)"
    by (cases "aggregateMonths ?days (replicate 12 (Num 0), Num 0, 0)") auto
  then have buckets: "monthlyData (calculateYearlyStats (loadPeriodLogData_yearly tz cfg now v)) = b"
    by (simp add: calculateYearlyStats_def loadPeriodLogData_yearly_def Let_def)
  have b: "b = fst (aggregateMonths ?days (replicate 12 (Num 0), Num 0, 0))"
    using agg by simp
  have bucket: "b ! k =
      (case v (logFilePath cfg d (getFormattedDate d @ str ''.md'')) of
         Some (TFile content) \<Rightarrow> sumDurations (parseLogFile content)
       | _ \<Rightarrow> Num 0)"
  proof (cases "\<exists>content. v (logFilePath cfg d (getFormattedDate d @ str ''.md'')) = Some (TFile content)")
    case True
    then obtain content where
      present: "v (logFilePath cfg d (getFormattedDate d @ str ''.md'')) = Some (TFile content)"
      by auto
    from loadLogFiles_present [of d ?ds v cfg content] mem present
    have "\<lparr>date = d, entries = parseLogFile content\<rparr> \<in> set ?days" .
    from aggregate_month [OF this dist, of "replicate 12 (Num 0)" "Num 0" 0] assms(1) fields
    show ?thesis by (simp add: b present)
  next
    case False
    then have none: "\<forall>content. v (logFilePath cfg d (getFormattedDate d @ str ''.md'')) \<noteq> Some (TFile content)"
      by simp
    have "k \<notin> getMonth ` date ` set ?days"
    proof
      assume "k \<in> getMonth ` date ` set ?days"
      then obtain m where m: "m \<in> set ?days" "getMonth (date m) = k" by auto
      then have "date m \<in> set ?ds" using loadLogFiles_dates [of cfg v ?ds] by auto
      then obtain j where j: "j < 12" "date m = ?ds ! j"
        using len by (auto simp: in_set_conv_nth)
      then have "getMonth (date m) = j"
        by (simp add: dates newDate_fields)
      with m j assms(4) have "date m = d" by simp
      with m(1) loadLogFiles_absent [of v cfg d ?ds] none show False by auto
    qed
    from aggregate_other_month [OF this, of "replicate 12 (Num 0)" "Num 0" 0] assms(1) none
    show ?thesis by (auto simp: b split: option.splits node.splits)
  qed
  from len fields buckets bucket show ?thesis by simp
qed

text \<open>
  C8, as amended. For a current year from 100 to 275759 (a year that the \<^verbatim>\<open>Date\<close>
  constructor takes as it is, and in which every first of a month is a valid date), the
  yearly statistics enumerate twelve dates, the first day of each month of the current
  year, and no other day. For each month \<open>k\<close> (counted from 0) the bucket of the month is
  the total of the minutes of the entries in one file, the file the loader names by
  \<open>getFormattedDate\<close> for that first day; it is zero when there is no file there, which is
  no error. Where the current year has four digits, the date format is \<^verbatim>\<open>YYYY-MM-DD\<close> (any
  format but \<^verbatim>\<open>YYYY/MM/DD\<close>) and the local midnight of that first day falls on the same
  calendar date in UTC, this file is that date's log file, the file at the path where
  \<open>saveLogEntry\<close> writes on that date.
\<close>

theorem yearly_first_days_only:
  assumes "k < 12" and "100 \<le> getFullYear now" and "getFullYear now \<le> 275759"
    and "d = yearlyDatesToLoad tz now ! k"
  shows "length (yearlyDatesToLoad tz now) = 12
    \<and> getFullYear d = getFullYear now \<and> getMonth d = k \<and> getDate d = 1
    \<and> monthlyData (calculateYearlyStats (loadPeriodLogData_yearly tz cfg now v)) ! k =
        (case v (logFilePath cfg d (getFormattedDate d @ str ''.md'')) of
           Some (TFile content) \<Rightarrow> sumDurations (parseLogFile content)
         | _ \<Rightarrow> Num 0)
    \<and> (tz (getFullYear now, k, 1) = (getFullYear now, k, 1)
        \<and> 1000 \<le> getFullYear now \<and> getFullYear now \<le> 9999
        \<and> dateFormat cfg \<noteq> str ''YYYY/MM/DD''
       \<longrightarrow> monthlyData (calculateYearlyStats (loadPeriodLogData_yearly tz cfg now v)) ! k =
            (case v (logFilePath cfg d (getFileNameDate cfg d @ str ''.md'')) of
               Some (TFile content) \<Rightarrow> sumDurations (parseLogFile content)
             | _ \<Rightarrow> Num 0))"
proof -
  note general = yearly_bucket_file [OF assms, of cfg v]
  have d: "d = newDate tz (getFullYear now) k 1"
    using assms by (simp add: yearly_dates)
  have "getFormattedDate d = getFileNameDate cfg d"
    if zone: "tz (getFullYear now, k, 1) = (getFullYear now, k, 1)"
      and year: "1000 \<le> getFullYear now" "getFullYear now \<le> 9999"
      and format: "dateFormat cfg \<noteq> str ''YYYY/MM/DD''"
  proof -
    from d zone assms(2) have utc: "utcFullYear d = getFullYear d" "utcMonth d = getMonth d"
        "utcDate d = getDate d" and same: "getFullYear d = getFullYear now"
      by (simp_all add: newDate_def dateYear_plain)
    show ?thesis
      using year format utc unfolding same [symmetric] by (intro formatters_agree) simp_all
  qed
  with general show ?thesis by simp
qed

lemma first_day_paths:
  "logFilePath exampleSettings (newDate eastZone 2024 0 1)
      (getFormattedDate (newDate eastZone 2024 0 1) @ str ''.md'')
     = str ''01Inbox/daily/2024/01/2023-12-31.md''"
  "logFilePath exampleSettings (newDate eastZone 2024 0 1)
      (getFileNameDate exampleSettings (newDate eastZone 2024 0 1) @ str ''.md'')
     = str ''01Inbox/daily/2024/01/2024-01-01.md''"
  "logFilePath slashSettings newYearsDay (getFormattedDate newYearsDay @ str ''.md'')
     = str ''01Inbox/daily/2024/01/2024-01-01.md''"
  "logFilePath slashSettings newYearsDay (getFileNameDate slashSettings newYearsDay @ str ''.md'')
     = str ''01Inbox/daily/2024/01/2024/01/01.md''"
  "logFilePath exampleSettings (newDate utcZone 999 0 1)
      (getFormattedDate (newDate utcZone 999 0 1) @ str ''.md'')
     = str ''01Inbox/daily/999/01/0999-01-01.md''"
  "logFilePath exampleSettings (newDate utcZone 999 0 1)
      (getFileNameDate exampleSettings (newDate utcZone 999 0 1) @ str ''.md'')
     = str ''01Inbox/daily/999/01/999-01-01.md''"
  by (simp_all add: path_defs newDate_def dateYear_def eastZone_def utcZone_def newYearsDay_def
      showNat.simps digitChar_def str_def Let_def)

lemma january_unread:
  "monthlyData (calculateYearlyStats
      (loadPeriodLogData_yearly eastZone exampleSettings exampleDate newYearVault)) ! 0 = Num 0"
  "monthlyData (calculateYearlyStats
      (loadPeriodLogData_yearly utcZone slashSettings exampleDate slashNewYearVault)) ! 0 = Num 0"
  "monthlyData (calculateYearlyStats
      (loadPeriodLogData_yearly utcZone exampleSettings year999 year999Vault)) ! 0 = Num 0"
proof -
  have east: "newDate eastZone 2024 0 1 = yearlyDatesToLoad eastZone exampleDate ! 0"
    and slash: "newYearsDay = yearlyDatesToLoad utcZone exampleDate ! 0"
    and early: "newDate utcZone 999 0 1 = yearlyDatesToLoad utcZone year999 ! 0"
    by (simp_all add: yearly_dates exampleDate_def year999_def newYearsDay_def)
  have first: "(0::nat) < 12" by simp
  have now: "100 \<le> getFullYear exampleDate" "getFullYear exampleDate \<le> 275759"
    and long_ago: "100 \<le> getFullYear year999" "getFullYear year999 \<le> 275759"
    by (simp_all add: exampleDate_def year999_def)
  note bucket = conjunct2 [OF conjunct2 [OF conjunct2 [OF conjunct2]]]
  show "monthlyData (calculateYearlyStats
      (loadPeriodLogData_yearly eastZone exampleSettings exampleDate newYearVault)) ! 0 = Num 0"
    using bucket [OF yearly_bucket_file [OF first now east, of exampleSettings newYearVault]]
    unfolding first_day_paths by (simp add: newYearVault_def)
  show "monthlyData (calculateYearlyStats
      (loadPeriodLogData_yearly utcZone slashSettings exampleDate slashNewYearVault)) ! 0 = Num 0"
    using bucket [OF yearly_bucket_file [OF first now slash, of slashSettings slashNewYearVault]]
    unfolding first_day_paths by (simp add: slashNewYearVault_def)
  show "monthlyData (calculateYearlyStats
      (loadPeriodLogData_yearly utcZone exampleSettings year999 year999Vault)) ! 0 = Num 0"
    using bucket [OF yearly_bucket_file [OF first long_ago early, of exampleSettings year999Vault]]
    unfolding first_day_paths by (simp add: year999Vault_def)
qed

text \<open>The claim as it was stated fails for every other day of the year: with the time zone
  UTC and the log of the 15th of January 2024, a row of 25 minutes, at the path where
  \<open>saveLogEntry\<close> writes it on that day, the yearly statistics of 2024 load no file at all
  and every month's bucket and the total are zero. It fails for the first day of a month as
  well where the loader's file name, the UTC date of local midnight in ISO form, is not the
  name \<open>saveLogEntry\<close> gives the file. East of Greenwich the loader looks for
  \<^verbatim>\<open>2023-12-31.md\<close> in the folder of January 2024; under the format \<^verbatim>\<open>YYYY/MM/DD\<close> the log is
  at \<^verbatim>\<open>2024/01/2024/01/01.md\<close> and the loader looks for \<^verbatim>\<open>2024/01/2024-01-01.md\<close>; in the
  year 999 the log is \<^verbatim>\<open>999-01-01.md\<close> and the loader looks for \<^verbatim>\<open>0999-01-01.md\<close>. Each
  time the log of the first of January holds 25 minutes and the bucket of January is zero.
  And with the clock in the year 50 the twelve dates are those of the year 1950.\<close>

theorem yearly_misses_other_days_counterexample:
  "logFilePath exampleSettings exampleDate (getFileNameDate exampleSettings exampleDate @ str ''.md'')
      = str ''01Inbox/daily/2024/01/2024-01-15.md''
    \<and> fileText (midMonthVault (str ''01Inbox/daily/2024/01/2024-01-15.md''))
      = Some (joinWith newline tableLines)
    \<and> sumDurations (parseLogFile (joinWith newline tableLines)) = Num 25
    \<and> loadPeriodLogData_yearly utcZone exampleSettings exampleDate midMonthVault = []
    \<and> totalMinutes (calculateYearlyStats
          (loadPeriodLogData_yearly utcZone exampleSettings exampleDate midMonthVault)) = Num 0
    \<and> monthlyData (calculateYearlyStats
          (loadPeriodLogData_yearly utcZone exampleSettings exampleDate midMonthVault))
        = replicate 12 (Num 0)
    \<and> fileText (newYearVault (logFilePath exampleSettings (newDate eastZone 2024 0 1)
          (getFileNameDate exampleSettings (newDate eastZone 2024 0 1) @ str ''.md'')))
      = Some (joinWith newline tableLines)
    \<and> monthlyData (calculateYearlyStats
          (loadPeriodLogData_yearly eastZone exampleSettings exampleDate newYearVault)) ! 0 = Num 0
    \<and> fileText (slashNewYearVault (logFilePath slashSettings newYearsDay
          (getFileNameDate slashSettings newYearsDay @ str ''.md'')))
      = Some (joinWith newline tableLines)
    \<and> monthlyData (calculateYearlyStats
          (loadPeriodLogData_yearly utcZone slashSettings exampleDate slashNewYearVault)) ! 0 = Num 0
    \<and> fileText (year999Vault (logFilePath exampleSettings (newDate utcZone 999 0 1)
          (getFileNameDate exampleSettings (newDate utcZone 999 0 1) @ str ''.md'')))
      = Some (joinWith newline tableLines)
    \<and> monthlyData (calculateYearlyStats
          (loadPeriodLogData_yearly utcZone exampleSettings year999 year999Vault)) ! 0 = Num 0
    \<and> getFullYear year50 = 50
    \<and> map getFullYear (yearlyDatesToLoad utcZone year50) = replicate 12 1950"
proof -
  have "\<forall>p \<in> set (map (\<lambda>d. logFilePath exampleSettings d (getFormattedDate d @ str ''.md''))
      (yearlyDatesToLoad utcZone exampleDate)). midMonthVault p = None"
    unfolding yearly_paths by (simp add: midMonthVault_def)
  then have "\<forall>d \<in> set (yearlyDatesToLoad utcZone exampleDate).
      midMonthVault (logFilePath exampleSettings d (getFormattedDate d @ str ''.md'')) = None"
    by simp
  then have none_loaded: "loadPeriodLogData_yearly utcZone exampleSettings exampleDate midMonthVault = []"
    unfolding loadPeriodLogData_yearly_def by (rule loadLogFiles_nothing)
  have here: "fileText (midMonthVault (str ''01Inbox/daily/2024/01/2024-01-15.md''))
      = Some (joinWith newline tableLines)"
    by (simp add: midMonthVault_def fileText_def)
  have sum: "sumDurations (parseLogFile (joinWith newline tableLines)) = Num 25"
    by (simp add: tableLines_parsed sumDurations_def)
  have stats: "totalMinutes (calculateYearlyStats []) = Num 0"
    "monthlyData (calculateYearlyStats []) = replicate 12 (Num 0)"
    by (simp_all add: calculateYearlyStats_def Let_def)
  have logs: "fileText (newYearVault (str ''01Inbox/daily/2024/01/2024-01-01.md''))
      = Some (joinWith newline tableLines)"
    "fileText (slashNewYearVault (str ''01Inbox/daily/2024/01/2024/01/01.md''))
      = Some (joinWith newline tableLines)"
    "fileText (year999Vault (str ''01Inbox/daily/999/01/999-01-01.md''))
      = Some (joinWith newline tableLines)"
    by (simp_all add: newYearVault_def slashNewYearVault_def year999Vault_def fileText_def)
  have twelve: "replicate 12 (1950::int)
      = [1950, 1950, 1950, 1950, 1950, 1950, 1950, 1950, 1950, 1950, 1950, 1950]"
    by (simp add: eval_nat_numeral)
  have mid_century: "getFullYear year50 = 50"
    "map getFullYear (yearlyDatesToLoad utcZone year50) = replicate 12 1950"
    unfolding twelve
    by (simp_all add: yearlyDatesToLoad_def newDate_def dateYear_def validFirstOfMonth_def
        year50_def exampleDate_def utcZone_def upt_12)
  show ?thesis
    unfolding none_loaded first_day_paths january_unread mid_century
    using example_paths(1) example_paths(6) here sum stats logs by simp
qed

theorem yearly_first_days_only_witness:
  "utcZone (getFullYear exampleDate, 0, 1) = (getFullYear exampleDate, 0, 1)
    \<and> 1000 \<le> getFullYear exampleDate \<and> getFullYear exampleDate \<le> 9999
    \<and> dateFormat exampleSettings \<noteq> str ''YYYY/MM/DD''
    \<and> yearlyDatesToLoad utcZone exampleDate ! 0 = newYearsDay
    \<and> logFilePath exampleSettings newYearsDay (getFileNameDate exampleSettings newYearsDay @ str ''.md'')
        = str ''01Inbox/daily/2024/01/2024-01-01.md''
    \<and> monthlyData (calculateYearlyStats
        (loadPeriodLogData_yearly utcZone exampleSettings exampleDate newYearVault)) ! 0 = Num 25"
proof -
  have now: "100 \<le> getFullYear exampleDate" "getFullYear exampleDate \<le> 275759"
    by (simp_all add: exampleDate_def)
  have d: "yearlyDatesToLoad utcZone exampleDate ! 0 = newYearsDay"
    by (simp add: yearly_dates exampleDate_def newYearsDay_def)
  have zone: "utcZone (getFullYear exampleDate, 0, 1) = (getFullYear exampleDate, 0, 1)"
    by (simp add: utcZone_def)
  have year: "1000 \<le> getFullYear exampleDate" "getFullYear exampleDate \<le> 9999"
    by (simp_all add: exampleDate_def)
  have format: "dateFormat exampleSettings \<noteq> str ''YYYY/MM/DD''"
    by (simp add: exampleSettings_def)
  have path: "logFilePath exampleSettings newYearsDay
      (getFileNameDate exampleSettings newYearsDay @ str ''.md'')
      = str ''01Inbox/daily/2024/01/2024-01-01.md''"
    by (simp add: path_defs newDate_def dateYear_def utcZone_def newYearsDay_def showNat.simps
        digitChar_def str_def Let_def)
  have sum: "sumDurations (parseLogFile (joinWith newline tableLines)) = Num 25"
    by (simp add: tableLines_parsed sumDurations_def)
  have first: "(0::nat) < 12" by simp
  from yearly_first_days_only [OF first now d [symmetric], of exampleSettings newYearVault]
    zone year format
  have "monthlyData (calculateYearlyStats
      (loadPeriodLogData_yearly utcZone exampleSettings exampleDate newYearVault)) ! 0 =
        (case newYearVault (logFilePath exampleSettings newYearsDay
            (getFileNameDate exampleSettings newYearsDay @ str ''.md'')) of
           Some (TFile content) \<Rightarrow> sumDurations (parseLogFile content)
         | _ \<Rightarrow> Num 0)"
    by blast
  then have "monthlyData (calculateYearlyStats
      (loadPeriodLogData_yearly utcZone exampleSettings exampleDate newYearVault)) ! 0 = Num 25"
    unfolding path by (simp add: newYearVault_def sum)
  with zone year format d path show ?thesis by simp
qed

section \<open>Trimming, lines and substrings\<close>

lemma trim_Nil [simp]: "trim [] = []"
  by (simp add: trim_def)

lemma dropWhile_same_length:
  "length (dropWhile P xs) = length xs \<Longrightarrow> dropWhile P xs = xs"
proof (cases xs)
  case Nil
  then show ?thesis by simp
next
  case (Cons x ys)
  assume len: "length (dropWhile P xs) = length xs"
  show ?thesis
  proof (cases "P x")
    case True
    have "length (dropWhile P ys) \<le> length ys" by (rule length_dropWhile_le)
    with True Cons len show ?thesis by simp
  next
    case False
    with Cons show ?thesis by simp
  qed
qed

lemma dropWhile_append_all:
  "\<forall>x \<in> set xs. P x \<Longrightarrow> dropWhile P (xs @ ys) = dropWhile P ys"
  by (induction xs) simp_all

lemma dropWhile_all: "\<forall>x \<in> set xs. P x \<Longrightarrow> dropWhile P xs = []"
  by (induction xs) simp_all

lemma trim_keeps:
  assumes "s \<noteq> []" and "\<not> isWhiteSpace (hd s)" and "\<not> isWhiteSpace (last s)"
  shows "trim (s @ r) = s @ rev (dropWhile isWhiteSpace (rev r))"
proof -
  from assms(1,2) have lead: "dropWhile isWhiteSpace (s @ r) = s @ r"
    by (cases s) auto
  from assms(1,3) have "\<not> isWhiteSpace (hd (rev s))" by (simp add: hd_rev)
  with assms(1) have trail: "dropWhile isWhiteSpace (rev s) = rev s"
    by (cases "rev s") auto
  have "dropWhile isWhiteSpace (rev r @ rev s) = dropWhile isWhiteSpace (rev r) @ rev s"
  proof (cases "\<forall>x \<in> set (rev r). isWhiteSpace x")
    case True
    from dropWhile_append_all [OF True, of "rev s"] dropWhile_all [OF True] trail
    show ?thesis by simp
  next
    case False
    then obtain x where "x \<in> set (rev r)" "\<not> isWhiteSpace x" by auto
    then show ?thesis by (simp add: dropWhile_append1)
  qed
  with lead show ?thesis by (simp add: trim_def)
qed

lemma trim_id:
  "s \<noteq> [] \<Longrightarrow> \<not> isWhiteSpace (hd s) \<Longrightarrow> \<not> isWhiteSpace (last s) \<Longrightarrow> trim s = s"
  using trim_keeps [of s "[]"] by simp

lemma trim_front: "isWhiteSpace w \<Longrightarrow> trim (w # x) = trim x"
  by (simp add: trim_def)

lemma trim_back: "isWhiteSpace w \<Longrightarrow> trim (x @ [w]) = trim x"
proof (cases "\<forall>y \<in> set x. isWhiteSpace y")
  case True
  assume "isWhiteSpace w"
  with True have "\<forall>y \<in> set (x @ [w]). isWhiteSpace y" by simp
  from dropWhile_all [OF this] dropWhile_all [OF True] show ?thesis
    unfolding trim_def by (simp only:)
next
  case False
  assume w: "isWhiteSpace w"
  from False obtain y where "y \<in> set x" "\<not> isWhiteSpace y" by auto
  then have "dropWhile isWhiteSpace (x @ [w]) = dropWhile isWhiteSpace x @ [w]"
    by (simp add: dropWhile_append1)
  with w show ?thesis by (simp add: trim_def)
qed

lemma trim_fixed:
  assumes "trim s = s" and "s \<noteq> []"
  shows "\<not> isWhiteSpace (hd s) \<and> \<not> isWhiteSpace (last s)"
proof -
  let ?a = "dropWhile isWhiteSpace s"
  let ?t = "dropWhile isWhiteSpace (rev ?a)"
  from assms(1) have t: "rev ?t = s" by (simp add: trim_def)
  have l1: "length ?t \<le> length ?a" using length_dropWhile_le [of isWhiteSpace "rev ?a"] by simp
  have l2: "length ?a \<le> length s" by (rule length_dropWhile_le)
  have l3: "length ?t = length s" using arg_cong [OF t, of length] by simp
  from l1 l2 l3 have "length ?a = length s" by simp
  then have a: "?a = s" by (rule dropWhile_same_length)
  with assms(2) have "\<not> isWhiteSpace (hd s)" using hd_dropWhile [of isWhiteSpace s] by simp
  moreover
  from a l3 have "length (dropWhile isWhiteSpace (rev s)) = length (rev s)" by simp
  then have "dropWhile isWhiteSpace (rev s) = rev s" by (rule dropWhile_same_length)
  with assms(2) have "\<not> isWhiteSpace (hd (rev s))"
    using hd_dropWhile [of isWhiteSpace "rev s"] by simp
  with assms(2) have "\<not> isWhiteSpace (last s)" by (simp add: hd_rev)
  ultimately show ?thesis by simp
qed


lemma startsWith_includes: "startsWith s p \<Longrightarrow> includesStr s p"
  by (cases s) (auto elim: startsWith.elims)

lemma includesStr_append: "includesStr (a @ p @ b) p"
  by (auto simp: includesStr_iff)

lemma includesStr_set: "includesStr s p \<Longrightarrow> set p \<subseteq> set s"
  by (auto simp: includesStr_iff)

lemma includesStr_wider: "includesStr s p \<Longrightarrow> includesStr (a @ s @ b) p"
proof -
  assume "includesStr s p"
  then obtain x y where "s = x @ p @ y" by (auto simp: includesStr_iff)
  then have "a @ s @ b = (a @ x) @ p @ (y @ b)" by simp
  then show ?thesis unfolding includesStr_iff by blast
qed

lemma joinWith_member: "l \<in> set ls \<Longrightarrow> \<exists>a b. joinWith c ls = a @ l @ b"
proof (induction ls)
  case Nil
  then show ?case by simp
next
  case (Cons m ms)
  show ?case
  proof (cases ms)
    case Nil
    with Cons.prems have "joinWith c (m # ms) = [] @ l @ []" by simp
    then show ?thesis by blast
  next
    case (Cons k ks)
    then have j: "joinWith c (m # ms) = m @ c # joinWith c ms" by simp
    show ?thesis
    proof (cases "l = m")
      case True
      with j have "joinWith c (m # ms) = [] @ l @ (c # joinWith c ms)" by simp
      then show ?thesis by blast
    next
      case False
      with Cons.prems have "l \<in> set ms" by simp
      with Cons.IH obtain a b where "joinWith c ms = a @ l @ b" by blast
      with j have "joinWith c (m # ms) = (m @ c # a) @ l @ b" by simp
      then show ?thesis by blast
    qed
  qed
qed

lemma joined_includes:
  assumes "l \<in> set ls" and "includesStr l p"
  shows "includesStr (joinWith c ls) p"
proof -
  from joinWith_member [OF assms(1)] obtain a b where "joinWith c ls = a @ l @ b" by blast
  with includesStr_wider [OF assms(2)] show ?thesis by simp
qed

lemma line_includes:
  "l \<in> set (splitOn c xs) \<Longrightarrow> includesStr l p \<Longrightarrow> includesStr xs p"
  using joined_includes [of l "splitOn c xs" p c] by (simp add: joinWith_splitOn)

lemma splitOn_prefix:
  "c \<notin> set p \<Longrightarrow> splitOn c (p @ b) = (p @ hd (splitOn c b)) # tl (splitOn c b)"
proof (induction p)
  case Nil
  then show ?case by (cases "splitOn c b") simp_all
next
  case (Cons x p)
  then show ?case by auto
qed

lemma includes_line:
  assumes "includesStr xs p" and "c \<notin> set p"
  shows "\<exists>l \<in> set (splitOn c xs). includesStr l p"
proof -
  from assms(1) obtain a b where xs: "xs = a @ p @ b" by (auto simp: includesStr_iff)
  have "\<exists>l \<in> set (splitOn c (a @ p @ b)). includesStr l p"
  proof (induction a)
    case Nil
    have "includesStr (p @ hd (splitOn c b)) p"
      using includesStr_append [of "[]" p] by simp
    then show ?case using splitOn_prefix [OF assms(2), of b] by simp
  next
    case (Cons x a)
    then obtain l where l: "l \<in> set (splitOn c (a @ p @ b))" "includesStr l p" by blast
    show ?case
    proof (cases "x = c")
      case True
      with l show ?thesis by auto
    next
      case False
      obtain m ms where ms: "splitOn c (a @ p @ b) = m # ms"
        by (cases "splitOn c (a @ p @ b)") auto
      show ?thesis
      proof (cases "l = m")
        case True
        with l(2) have "includesStr (x # m) p" using includesStr_wider [of m p "[x]" "[]"] by simp
        with False ms show ?thesis by simp
      next
        case False
        with l(1) ms have "l \<in> set ms" by simp
        with \<open>x \<noteq> c\<close> ms l(2) show ?thesis by auto
      qed
    qed
  qed
  with xs show ?thesis by simp
qed

lemma splitOn_sep_append: "splitOn c (a @ c # b) = splitOn c a @ splitOn c b"
proof (induction a)
  case Nil
  then show ?case by simp
next
  case (Cons x a)
  then show ?case
    by (cases "splitOn c a") (auto split: list.splits)
qed

lemma splitOn_joinWith_concat:
  "ls \<noteq> [] \<Longrightarrow> splitOn c (joinWith c ls) = concat (map (splitOn c) ls)"
proof (induction ls)
  case Nil
  then show ?case by simp
next
  case (Cons l ls)
  show ?case
  proof (cases ls)
    case Nil
    then show ?thesis by simp
  next
    case (Cons m ms)
    with Cons.IH show ?thesis by (simp add: splitOn_sep_append)
  qed
qed

lemma concat_single_lines:
  "\<forall>l \<in> set ls. c \<notin> set l \<Longrightarrow> concat (map (splitOn c) ls) = ls"
  by (induction ls) (simp_all add: splitOn_no_sep)

lemma findIndex_take:
  "findIndex P xs = Some i \<Longrightarrow> i < n \<Longrightarrow> findIndex P (take n xs) = Some i"
proof (induction xs arbitrary: i n)
  case Nil
  then show ?case by simp
next
  case (Cons x xs)
  show ?case
  proof (cases "P x")
    case True
    with Cons.prems show ?thesis by (cases n) auto
  next
    case False
    with Cons.prems obtain k where k: "findIndex P xs = Some k" "i = Suc k" by auto
    with Cons.prems obtain m where m: "n = Suc m" by (cases n) auto
    with Cons.IH [OF k(1), of m] k Cons.prems False show ?thesis by simp
  qed
qed

lemma hasDuplicate_iff: "hasDuplicate key ls \<longleftrightarrow> (\<exists>l \<in> set ls. isDuplicateLine key l)"
  by (induction ls) (auto simp: isDuplicateLine_def Let_def)

section \<open>saveLogEntry: duplicates\<close>

lemma pipe_not_space [simp]: "\<not> isWhiteSpace pipe"
  by (simp add: isWhiteSpace_def)

lemma duplicateKey_ends:
  "duplicateKey startT endT tagT \<noteq> []" "hd (duplicateKey startT endT tagT) = pipe"
  "last (duplicateKey startT endT tagT) = pipe"
  by (simp_all add: duplicateKey_def str_def)

lemma logEntry_key:
  "logEntry startT endT tagT notes minutes =
     duplicateKey startT endT tagT @ space # notes @ str '' | '' @ showInt minutes @ minutesUnit @ str '' |''"
  by (simp add: logEntry_def duplicateKey_def str_def)

lemma logEntry_ends:
  "logEntry startT endT tagT notes minutes \<noteq> []" "hd (logEntry startT endT tagT notes minutes) = pipe"
  "last (logEntry startT endT tagT notes minutes) = pipe"
  by (simp_all add: logEntry_def str_def)

lemma logEntry_is_duplicate:
  assumes "trim l = logEntry startT endT tagT notes minutes"
  shows "isDuplicateLine (duplicateKey startT endT tagT) l"
proof -
  have a: "startsWith (logEntry startT endT tagT notes minutes) [pipe]"
    by (simp add: logEntry_def str_def)
  have "startsWith (logEntry startT endT tagT notes minutes) (duplicateKey startT endT tagT)"
    unfolding logEntry_key by (rule startsWith_append)
  then have b: "includesStr (logEntry startT endT tagT notes minutes) (duplicateKey startT endT tagT)"
    by (rule startsWith_includes)
  from a b show ?thesis by (simp add: isDuplicateLine_def assms)
qed

lemma includesStr_self [simp]: "includesStr s s"
  using includesStr_append [of "[]" s "[]"] by simp

lemma header_line_in_content:
  "findIndex (\<lambda>line. includesStr line p) (splitOn c content) = Some h \<Longrightarrow> includesStr content p"
  using findIndex_Some [of "\<lambda>line. includesStr line p" "splitOn c content" h]
    line_includes [of "splitOn c content ! h" c content p]
  by auto

lemma insertLogEntry_duplicate:
  assumes "findIndex (\<lambda>line. includesStr line headerRow) (splitOn newline content) = Some h"
    and "l \<in> set (drop (h + 2) (splitOn newline content))"
    and "isDuplicateLine (duplicateKey startT endT tagT) l"
  shows "insertLogEntry content startT endT tagT entryRow = None"
proof -
  from header_line_in_content [OF assms(1)] have "includesStr content headerRow" .
  moreover from assms(2,3)
  have "hasDuplicate (duplicateKey startT endT tagT) (drop (h + 2) (splitOn newline content))"
    unfolding hasDuplicate_iff by blast
  ultimately show ?thesis using assms(1) by (simp add: insertLogEntry_def Let_def)
qed


lemma tableLines_split: "splitOn newline (joinWith newline tableLines) = tableLines"
  by (rule splitOn_joinWith)
     (simp_all add: tableLines_def firstRow_def logEntry_def str_defs showInt_def showMagnitude_def showNat_25)



lemma showNat_digits: "\<forall>c \<in> set (showNat n). isDigit c"
proof (induction n rule: showNat.induct)
  case (1 n)
  show ?case
  proof (cases "n < 10")
    case True
    then show ?thesis by (subst showNat.simps) (simp add: digitChar_def isDigit_def)
  next
    case False
    have "n mod 10 < 10" by simp
    then have "isDigit (digitChar (n mod 10))" by (simp add: digitChar_def isDigit_def)
    with False "1.IH" show ?thesis by (subst showNat.simps) simp
  qed
qed

lemma showNat_not_Nil: "showNat n \<noteq> []"
  by (subst showNat.simps) simp

lemma exponentForm_chars: "c \<in> set (exponentForm n) \<Longrightarrow> isDigit c \<or> c \<in> {46, 101, 43}"
proof -
  let ?sig = "rev (dropWhile (\<lambda>c. c = 48) (rev (showNat n)))"
  have sub: "set ?sig \<subseteq> set (showNat n)"
    using set_dropWhileD [of _ "\<lambda>c. c = 48" "rev (showNat n)"] by auto
  then have sig: "\<forall>c \<in> set ?sig. isDigit c" using showNat_digits by blast
  assume "c \<in> set (exponentForm n)"
  then show ?thesis
    using sig showNat_digits [of "length (showNat n) - 1"]
    by (cases ?sig) (auto simp: exponentForm_def Let_def isDigit_def split: if_splits)
qed

lemma exponentForm_not_Nil: "exponentForm n \<noteq> []"
  by (simp add: exponentForm_def Let_def)

lemma showInt_not_Nil: "showInt i \<noteq> []"
  by (simp add: showInt_def showMagnitude_def showNat_not_Nil exponentForm_not_Nil)

lemma showInt_chars: "c \<in> set (showInt i) \<Longrightarrow> isDigit c \<or> c \<in> {dash, 46, 101, 43}"
  using showNat_digits exponentForm_chars
  by (auto simp: showInt_def showMagnitude_def split: if_splits)

lemma showInt_no_newline [simp]: "newline \<notin> set (showInt i)"
  using showInt_chars [of newline i] by (auto simp: isDigit_def)

lemma key_isDuplicate:
  "isDuplicateLine (duplicateKey startT endT tagT) (duplicateKey startT endT tagT @ x)"
proof -
  let ?k = "duplicateKey startT endT tagT"
  have t: "trim (?k @ x) = ?k @ rev (dropWhile isWhiteSpace (rev x))"
    by (rule trim_keeps) (simp_all add: duplicateKey_ends)
  have "startsWith (?k @ rev (dropWhile isWhiteSpace (rev x))) [pipe]"
    by (simp add: duplicateKey_def str_def)
  moreover have "includesStr (?k @ rev (dropWhile isWhiteSpace (rev x))) ?k"
    by (rule startsWith_includes) (rule startsWith_append)
  ultimately show ?thesis by (simp add: isDuplicateLine_def t)
qed

lemma duplicateKey_no_newline:
  "newline \<notin> set startT \<Longrightarrow> newline \<notin> set endT \<Longrightarrow> newline \<notin> set tagT
    \<Longrightarrow> newline \<notin> set (duplicateKey startT endT tagT)"
  by (simp add: duplicateKey_def str_def)

lemma logEntry_no_newline:
  "newline \<notin> set startT \<Longrightarrow> newline \<notin> set endT \<Longrightarrow> newline \<notin> set tagT
    \<Longrightarrow> newline \<notin> set noteT \<Longrightarrow> newline \<notin> set (logEntry startT endT tagT noteT minutes)"
  by (simp add: logEntry_def str_def minutesUnit_def)

lemma tableHeading_no_newline [simp]: "newline \<notin> set tableHeading"
  by (simp add: tableHeading_def)

lemma headerRow_no_newline [simp]: "newline \<notin> set headerRow"
  by (simp add: headerRow_def)

text \<open>The lines after an insertion.\<close>

lemma inserted_lines:
  assumes "ins \<le> length (splitOn newline content)"
  shows "splitOn newline (joinWith newline (splice_insert ins row (splitOn newline content)))
    = take ins (splitOn newline content) @ splitOn newline row @ drop ins (splitOn newline content)"
proof -
  let ?L = "splitOn newline content"
  have free: "\<forall>l \<in> set ?L. newline \<notin> set l" by (auto dest: splitOn_free)
  then have a: "concat (map (splitOn newline) (take ins ?L)) = take ins ?L"
    by (intro concat_single_lines) (auto dest: in_set_takeD)
  from free have b: "concat (map (splitOn newline) (drop ins ?L)) = drop ins ?L"
    by (intro concat_single_lines) (auto dest: in_set_dropD)
  have "splitOn newline (joinWith newline (splice_insert ins row ?L))
      = concat (map (splitOn newline) (splice_insert ins row ?L))"
    by (rule splitOn_joinWith_concat) (simp add: splice_insert_def)
  with a b show ?thesis by (simp add: splice_insert_def)
qed


lemma splice_insert_set: "set (splice_insert i e xs) = insert e (set xs)"
proof -
  have "set (take i xs) \<union> set (drop i xs) = set xs"
    using set_append [of "take i xs" "drop i xs"] by simp
  then show ?thesis by (auto simp: splice_insert_def)
qed

lemma insert_then_duplicate:
  assumes header: "findIndex (\<lambda>line. includesStr line headerRow) (splitOn newline content) = Some h"
    and sep: "h + 2 \<le> length (splitOn newline content)"
    and free: "newline \<notin> set startT" "newline \<notin> set endT" "newline \<notin> set tagT"
    and c1: "c1 = joinWith newline
        (splice_insert (h + 2) (logEntry startT endT tagT noteT minutes) (splitOn newline content))"
  shows "findIndex (\<lambda>line. includesStr line headerRow) (splitOn newline c1) = Some h"
    and "drop (h + 2) (splitOn newline c1)
      = splitOn newline (logEntry startT endT tagT noteT minutes) @ drop (h + 2) (splitOn newline content)"
    and "insertLogEntry c1 startT endT tagT entryRow = None"
proof -
  let ?L = "splitOn newline content"
  let ?row = "logEntry startT endT tagT noteT minutes"
  let ?key = "duplicateKey startT endT tagT"
  have lines: "splitOn newline c1 = take (h + 2) ?L @ splitOn newline ?row @ drop (h + 2) ?L"
    unfolding c1 using sep by (rule inserted_lines)
  have "findIndex (\<lambda>line. includesStr line headerRow) (take (h + 2) ?L) = Some h"
    using header by (rule findIndex_take) simp
  then show found: "findIndex (\<lambda>line. includesStr line headerRow) (splitOn newline c1) = Some h"
    unfolding lines by (rule findIndex_append)
  have len: "length (take (h + 2) ?L) = h + 2" using sep by simp
  show rest: "drop (h + 2) (splitOn newline c1) = splitOn newline ?row @ drop (h + 2) ?L"
    unfolding lines using len by simp
  have "newline \<notin> set ?key" using free by (rule duplicateKey_no_newline)
  then have "splitOn newline ?row =
      (?key @ hd (splitOn newline (space # noteT @ str '' | '' @ showInt minutes @ minutesUnit @ str '' |'')))
       # tl (splitOn newline (space # noteT @ str '' | '' @ showInt minutes @ minutesUnit @ str '' |''))"
    unfolding logEntry_key by (rule splitOn_prefix)
  then obtain x xs where "splitOn newline ?row = (?key @ x) # xs" by blast
  then have "?key @ x \<in> set (drop (h + 2) (splitOn newline c1))" unfolding rest by simp
  from insertLogEntry_duplicate [OF found this key_isDuplicate]
  show "insertLogEntry c1 startT endT tagT entryRow = None" .
qed

lemma insert_keeps_heading:
  assumes "includesStr content p" and "newline \<notin> set p"
  shows "includesStr (joinWith newline (splice_insert i row (splitOn newline content))) p"
proof -
  from includes_line [OF assms] obtain l where
    l: "l \<in> set (splitOn newline content)" "includesStr l p" by blast
  then have "l \<in> set (splice_insert i row (splitOn newline content))"
    by (simp add: splice_insert_set)
  then show ?thesis using l(2) by (rule joined_includes)
qed

lemmas save_defs = saveLogContent_def ensureTable_def insertLogEntry_def splice_insert_def
  logEntry_def duplicateKey_def finalDurationMinutes_def newLineFor_def endsWith_def
  trim_def isWhiteSpace_def showInt_def showMagnitude_def Let_def

lemma headerOnly_once:
  "saveLogContent exampleSettings (str ''2024-01-15'') (Some headerOnlyTable)
     (str ''10:00:00'') (str ''10:25:00'') (str ''read'') (str ''second'') (Some 25)
   = joinWith newline [tableHeading, headerRow, secondRow]"
  unfolding headerOnlyTable_def secondRow_def
  by (simp add: save_defs str_defs showNat_25 exampleSettings_def)

lemma headerOnly_twice:
  "saveLogContent exampleSettings (str ''2024-01-15'')
     (Some (joinWith newline [tableHeading, headerRow, secondRow]))
     (str ''10:00:00'') (str ''10:25:00'') (str ''read'') (str ''second'') (Some 25)
   = joinWith newline [tableHeading, headerRow, secondRow, secondRow]"
  unfolding headerOnlyTable_def secondRow_def
  by (simp add: save_defs str_defs showNat_25 exampleSettings_def)

lemma lineBreak_once:
  "saveLogContent exampleSettings (str ''2024-01-15'') (Some (joinWith newline tableLines))
     (str ''10:00:00'') (str ''10:25:00'') lineBreakTag (str ''second'') (Some 25)
   = joinWith newline [tableHeading, [], headerRow, separatorRow,
       logEntry (str ''10:00:00'') (str ''10:25:00'') lineBreakTag (str ''second'') 25, firstRow]"
  unfolding tableLines_def firstRow_def lineBreakTag_def
  by (simp add: save_defs str_defs showNat_25 exampleSettings_def)

lemma lineBreak_twice:
  "saveLogContent exampleSettings (str ''2024-01-15'')
     (Some (joinWith newline [tableHeading, [], headerRow, separatorRow,
       logEntry (str ''10:00:00'') (str ''10:25:00'') lineBreakTag (str ''second'') 25, firstRow]))
     (str ''10:00:00'') (str ''10:25:00'') lineBreakTag (str ''second'') (Some 25)
   = joinWith newline [tableHeading, [], headerRow, separatorRow,
       logEntry (str ''10:00:00'') (str ''10:25:00'') lineBreakTag (str ''second'') 25,
       logEntry (str ''10:00:00'') (str ''10:25:00'') lineBreakTag (str ''second'') 25, firstRow]"
  unfolding tableLines_def firstRow_def lineBreakTag_def
  by (simp add: save_defs str_defs showNat_25 exampleSettings_def)


section \<open>Round trip: a first save, then a parse\<close>

subsection \<open>Printing and reading numbers\<close>

lemma parseDigits_snoc: "parseDigits (ds @ [c]) = 10 * parseDigits ds + (c - 48)"
  by (simp add: parseDigits_def)

lemma parseDigits_showNat: "parseDigits (showNat n) = n"
proof (induction n rule: showNat.induct)
  case (1 n)
  show ?case
  proof (cases "n < 10")
    case True
    then show ?thesis
      by (subst showNat.simps) (simp add: parseDigits_def digitChar_def)
  next
    case False
    with "1.IH" have "parseDigits (showNat (n div 10)) = n div 10" by simp
    with False show ?thesis
      by (subst showNat.simps) (simp add: parseDigits_snoc digitChar_def)
  qed
qed

lemma startsWith_refl [simp]: "startsWith s s"
  using startsWith_append [of s "[]"] by simp

lemma minutesUnit_facts:
  "dropWhile isDigit minutesUnit = minutesUnit" "minutesUnit \<noteq> []"
  "\<not> isWhiteSpace (last minutesUnit)" "pipe \<notin> set minutesUnit" "newline \<notin> set minutesUnit"
  by (simp_all add: minutesUnit_def isDigit_def isWhiteSpace_def)

lemma durationMatch_showNat: "durationMatch (showNat n @ minutesUnit) = Some n"
proof -
  obtain d ds where d: "showNat n = d # ds" using showNat_not_Nil [of n] by (cases "showNat n") auto
  with showNat_digits [of n] have digits: "isDigit d" "\<forall>c \<in> set ds. isDigit c" by auto
  from digits(2) have rest: "dropWhile isDigit (ds @ minutesUnit) = minutesUnit"
    by (simp add: dropWhile_append_all minutesUnit_facts)
  from digits(2) have run: "takeWhile isDigit (ds @ minutesUnit) = ds"
    by (simp add: takeWhile_append2 minutesUnit_def isDigit_def)
  have "durationMatch ((d # ds) @ minutesUnit) = Some (parseDigits (d # ds))"
    using digits(1) rest run by simp
  with d parseDigits_showNat [of n] show ?thesis by simp
qed


subsection \<open>The cells of a written row\<close>

lemma logEntry_cells:
  "logEntry startT endT tagT noteT minutes =
     pipe # (space # startT @ [space]) @ pipe # (space # endT @ [space]) @ pipe
       # (space # tagT @ [space]) @ pipe # (space # noteT @ [space]) @ pipe
       # (space # (showInt minutes @ minutesUnit) @ [space]) @ [pipe]"
  by (simp add: logEntry_def str_def)

lemma splitOn_cells:
  assumes "pipe \<notin> set a" "pipe \<notin> set b" "pipe \<notin> set c" "pipe \<notin> set d" "pipe \<notin> set e"
  shows "splitOn pipe (pipe # a @ pipe # b @ pipe # c @ pipe # d @ pipe # e @ [pipe])
    = [[], a, b, c, d, e, []]"
  using assms by (simp add: splitOn_append_sep)

lemma space_is_white [simp]: "isWhiteSpace space"
  by (simp add: isWhiteSpace_def)

lemma trim_padded: "trim (space # x @ [space]) = trim x"
  using trim_back [of space "space # x"] by (simp add: trim_front)

lemma trim_padded2: "trim (space # a @ b @ [space]) = trim (a @ b)"
  using trim_padded [of "a @ b"] by simp

lemma showInt_no_pipe [simp]: "pipe \<notin> set (showInt i)"
  using showInt_chars [of pipe i] by (auto simp: isDigit_def)

lemma trim_duration: "trim (showInt minutes @ minutesUnit) = showInt minutes @ minutesUnit"
proof (rule trim_id)
  show "showInt minutes @ minutesUnit \<noteq> []" by (simp add: minutesUnit_facts)
  have "showInt minutes \<noteq> []" by (rule showInt_not_Nil)
  then have "hd (showInt minutes @ minutesUnit) \<in> set (showInt minutes)" by simp
  then have "isDigit (hd (showInt minutes @ minutesUnit))
      \<or> hd (showInt minutes @ minutesUnit) \<in> {dash, 46, 101, 43}"
    by (rule showInt_chars)
  then show "\<not> isWhiteSpace (hd (showInt minutes @ minutesUnit))"
    by (auto simp: isDigit_def isWhiteSpace_def)
  show "\<not> isWhiteSpace (last (showInt minutes @ minutesUnit))"
    by (simp add: minutesUnit_facts)
qed

lemma columnsOf_logEntry:
  assumes "cellText startT" and "cellText endT" and "cellText tagT"
    and "trim noteT \<noteq> []" and "pipe \<notin> set noteT"
  shows "columnsOf (logEntry startT endT tagT noteT minutes)
    = [startT, endT, tagT, trim noteT, showInt minutes @ minutesUnit]"
proof -
  have cells: "splitOn pipe (logEntry startT endT tagT noteT minutes) =
      [[], space # startT @ [space], space # endT @ [space], space # tagT @ [space],
       space # noteT @ [space], space # (showInt minutes @ minutesUnit) @ [space], []]"
    unfolding logEntry_cells
    using assms by (intro splitOn_cells) (simp_all add: cellText_def minutesUnit_facts)
  show ?thesis
    unfolding columnsOf_def cells
    using assms by (simp add: trim_padded trim_padded2 trim_duration cellText_def minutesUnit_facts)
qed

lemma parseRow_logEntry:
  assumes "cellText startT" and "cellText endT" and "cellText tagT"
    and "trim noteT \<noteq> []" and "pipe \<notin> set noteT"
    and "startT \<noteq> startTimeLabel" and "\<not> includesStr startT (str ''---'')"
    and "0 \<le> minutes" and "minutes < 10 ^ 21"
  shows "parseRow (logEntry startT endT tagT noteT minutes)
    = Some \<lparr>startTime = startT, endTime = endT, tag = tagT, duration = Num minutes\<rparr>"
proof -
  let ?row = "logEntry startT endT tagT noteT minutes"
  have t: "trim ?row = ?row" using logEntry_ends by (intro trim_id) simp_all
  have first: "startsWith ?row [pipe]" by (simp add: logEntry_def str_def)
  have ne: "?row \<noteq> []" by (rule logEntry_ends)
  have dur: "durationMatch (showInt minutes @ minutesUnit) = Some (nat minutes)"
  proof -
    have "nat minutes < 10 ^ 21" using assms(8,9) by simp
    with assms(8) show ?thesis
      by (simp add: showInt_def showMagnitude_def durationMatch_showNat)
  qed
  show ?thesis
    unfolding parseRow_def t Let_def columnsOf_logEntry [OF assms(1-5)]
    using first ne assms(6,7,8) dur by simp
qed


subsection \<open>The file a first save creates\<close>

lemma padStart_digits: "\<forall>c \<in> set (padStart k (showNat n)). isDigit c"
  using showNat_digits [of n] by (auto simp: padStart_def isDigit_def)

lemma getFileNameDate_chars:
  "c \<in> set (getFileNameDate cfg d) \<Longrightarrow> isDigit c \<or> c \<in> {dash, slash, 46, 101, 43}"
  using padStart_digits showInt_chars
  by (fastforce simp: getFileNameDate_def Let_def split: if_splits)

lemma title_line:
  "newline \<notin> set (str ''# '' @ getFileNameDate cfg d)"
  "\<not> includesStr (str ''# '' @ getFileNameDate cfg d) headerRow"
  "\<not> includesStr (str ''# '' @ getFileNameDate cfg d) tableHeading"
proof -
  let ?t = "str ''# '' @ getFileNameDate cfg d"
  have chars: "c \<in> set ?t \<Longrightarrow> isDigit c \<or> c \<in> {dash, slash, 46, 101, 43, 35, space}" for c
    using getFileNameDate_chars [of c cfg d] by (auto simp: str_def)
  show "newline \<notin> set ?t" using chars [of newline] by (auto simp: isDigit_def)
  have "pipe \<notin> set ?t" using chars [of pipe] by (auto simp: isDigit_def)
  moreover have "pipe \<in> set headerRow" by (simp add: headerRow_def)
  ultimately show "\<not> includesStr ?t headerRow" using includesStr_set [of ?t headerRow] by auto
  have "30058 \<notin> set ?t" using chars [of 30058] by (auto simp: isDigit_def)
  moreover have "30058 \<in> set tableHeading" by (simp add: tableHeading_def)
  ultimately show "\<not> includesStr ?t tableHeading" using includesStr_set [of ?t tableHeading] by auto
qed

lemma fixed_lines:
  "headerRow \<noteq> []" "\<not> includesStr tableHeading headerRow"
  "tableHeading \<noteq> []" "newline \<notin> set separatorRow"
  "parseRow headerRow = None" "parseRow separatorRow = None" "parseRow [] = None"
  by (simp_all add: str_defs codec_defs)

lemma new_file_lines:
  "ensureTable dateString None =
     joinWith newline [str ''# '' @ dateString, [], [], tableHeading, [], headerRow, separatorRow, []]"
  by (simp add: ensureTable_def tableHeader_def)

lemma hasDuplicate_blank: "\<not> hasDuplicate key [[]]"
  by (simp add: Let_def)

text \<open>
  C3, as amended. For an entry whose start time, end time and tag can stand in a cell as
  they are (not empty, no white space at either end, no pipe, no line break), whose notes
  hold a character that is not white space and no pipe or line break, whose start time is
  not the header word and holds no \<^verbatim>\<open>---\<close>, and whose duration is a positive integer below
  \<open>10^21\<close> (from where on a number is printed in exponent form): parsing the file that
  \<open>saveLogEntry\<close> creates for it where there was none yields exactly that one entry, with
  the same start time, end time, tag and duration.
\<close>

theorem save_then_parse:
  assumes "cellText startT" and "cellText endT" and "cellText tagT"
    and "trim noteT \<noteq> []" and "pipe \<notin> set noteT" and "newline \<notin> set noteT"
    and "startT \<noteq> startTimeLabel" and "\<not> includesStr startT (str ''---'')"
    and "0 < minutes" and "minutes < 10 ^ 21"
  shows "parseLogFile (saveLogContent cfg (getFileNameDate cfg targetDate) None
            startT endT tagT noteT (Some minutes))
    = [\<lparr>startTime = startT, endTime = endT, tag = tagT, duration = Num minutes\<rparr>]"
proof -
  let ?title = "str ''# '' @ getFileNameDate cfg targetDate"
  let ?row = "logEntry startT endT tagT noteT minutes"
  let ?L0 = "[?title, [], [], tableHeading, [], headerRow, separatorRow, []]"
  let ?L1 = "[?title, [], [], tableHeading, [], headerRow, separatorRow, ?row, []]"
  note title = title_line [of cfg targetDate]
  have free0: "\<forall>l \<in> set ?L0. newline \<notin> set l"
    using title(1) by (simp add: fixed_lines)
  have split0: "splitOn newline (joinWith newline ?L0) = ?L0"
    using free0 by (intro splitOn_joinWith) simp_all
  have hdr: "includesStr (joinWith newline ?L0) headerRow"
    by (rule joined_includes [of headerRow]) simp_all
  have index: "findIndex (\<lambda>line. includesStr line headerRow) ?L0 = Some 5"
    using title(2) by (simp add: fixed_lines)
  have "insertLogEntry (joinWith newline ?L0) startT endT tagT ?row = Some (joinWith newline ?L1)"
    unfolding insertLogEntry_def split0 Let_def
    using hdr index by (simp add: splice_insert_def del: joinWith.simps)
  then have saved: "saveLogContent cfg (getFileNameDate cfg targetDate) None
      startT endT tagT noteT (Some minutes) = joinWith newline ?L1"
    using assms(9)
    by (simp add: saveLogContent_def new_file_lines finalDurationMinutes_def Let_def
        del: joinWith.simps)
  have "newline \<notin> set ?row"
    using assms(1,2,3,6) by (intro logEntry_no_newline) (simp_all add: cellText_def)
  then have free1: "\<forall>l \<in> set ?L1. newline \<notin> set l"
    using title(1) by (simp add: fixed_lines)
  have heading: "findIndex (\<lambda>line. includesStr line tableHeading) ?L1 = Some 3"
    using title(3) by (simp add: fixed_lines)
  have row: "parseRow ?row
      = Some \<lparr>startTime = startT, endTime = endT, tag = tagT, duration = Num minutes\<rparr>"
    using assms by (intro parseRow_logEntry) simp_all
  have "parseLogFile (joinWith newline ?L1)
      = [\<lparr>startTime = startT, endTime = endT, tag = tagT, duration = Num minutes\<rparr>]"
    using parseLogFile_lines [of ?L1] free1 heading row
    by (simp add: fixed_lines del: joinWith.simps)
  with saved show ?thesis by simp
qed


theorem save_then_parse_witness:
  "parseLogFile (saveLogContent exampleSettings (getFileNameDate exampleSettings exampleDate) None
       (str ''09:00:00'') (str ''09:25:00'') (str ''work'') (str ''first'') (Some 25))
   = [\<lparr>startTime = str ''09:00:00'', endTime = str ''09:25:00'', tag = str ''work'',
        duration = Num 25\<rparr>]"
proof -
  have cells: "cellText (str ''09:00:00'')" "cellText (str ''09:25:00'')" "cellText (str ''work'')"
    by (simp_all add: cellText_def trim_def isWhiteSpace_def str_def)
  have note_ok: "trim (str ''first'') \<noteq> []" "pipe \<notin> set (str ''first'')"
    "newline \<notin> set (str ''first'')"
    by (simp_all add: trim_def isWhiteSpace_def str_def)
  have start_ok: "str ''09:00:00'' \<noteq> startTimeLabel" "\<not> includesStr (str ''09:00:00'') (str ''---'')"
    by (simp_all add: str_defs)
  from save_then_parse [OF cells note_ok start_ok, of 25 exampleSettings exampleDate]
  show ?thesis by simp
qed

text \<open>The claim as it was stated fails for entries outside these bounds, in the file created
  with the default settings: a tag \<^verbatim>\<open>a|b\<close> comes back as \<^verbatim>\<open>a\<close>; a duration of 0 is written and
  comes back as the work time, 25 (line 1808); with empty notes the row has four cells and
  no entry comes back at all; and a duration of \<open>10^21\<close> is written as \<^verbatim>\<open>1e+21\<close> and comes
  back as 21, the digits before the unit.\<close>

theorem round_trip_counterexample:
  "parseLogFile (saveLogContent exampleSettings (str ''2024-01-15'') None
       (str ''09:00:00'') (str ''09:25:00'') (str ''a|b'') (str ''first'') (Some 25))
     = [\<lparr>startTime = str ''09:00:00'', endTime = str ''09:25:00'', tag = str ''a'',
          duration = Num 25\<rparr>]
   \<and> parseLogFile (saveLogContent exampleSettings (str ''2024-01-15'') None
       (str ''09:00:00'') (str ''09:25:00'') (str ''work'') (str ''first'') (Some 0))
     = [\<lparr>startTime = str ''09:00:00'', endTime = str ''09:25:00'', tag = str ''work'',
          duration = Num 25\<rparr>]
   \<and> parseLogFile (saveLogContent exampleSettings (str ''2024-01-15'') None
       (str ''09:00:00'') (str ''09:25:00'') (str ''work'') [] (Some 25)) = []
   \<and> logEntry (str ''09:00:00'') (str ''09:25:00'') (str ''work'') (str ''first'') (10 ^ 21)
     = str ''| 09:00:00 | 09:25:00 | work | first | 1e+21'' @ minutesUnit @ str '' |''
   \<and> parseLogFile (saveLogContent exampleSettings (str ''2024-01-15'') None
       (str ''09:00:00'') (str ''09:25:00'') (str ''work'') (str ''first'') (Some (10 ^ 21)))
     = [\<lparr>startTime = str ''09:00:00'', endTime = str ''09:25:00'', tag = str ''work'',
          duration = Num 21\<rparr>]"
  by (simp add: save_defs codec_defs str_defs tableHeader_def showNat_25 exponentForm_example
      exampleSettings_def calculateTimeDifference_def timeOfDay_def toNumber_def)

section \<open>saveLogEntry: the same entry twice\<close>

lemma splitOn_covers:
  "c \<in> set xs \<Longrightarrow> c \<noteq> sep \<Longrightarrow> \<exists>seg \<in> set (splitOn sep xs). c \<in> set seg"
proof (induction xs)
  case Nil
  then show ?case by simp
next
  case (Cons x xs)
  obtain l ls where split: "splitOn sep xs = l # ls"
    using splitOn_not_Nil [of sep xs] by (cases "splitOn sep xs") auto
  show ?case
  proof (cases "c = x")
    case True
    with Cons.prems split show ?thesis by simp
  next
    case False
    with Cons obtain seg where "seg \<in> set (splitOn sep xs)" "c \<in> set seg" by auto
    with split show ?thesis by auto
  qed
qed

lemma dropWhile_keeps: "c \<in> set xs \<Longrightarrow> \<not> P c \<Longrightarrow> c \<in> set (dropWhile P xs)"
  by (induction xs) auto

lemma in_set_not_Nil: "c \<in> set xs \<Longrightarrow> xs \<noteq> []"
  by auto

lemma trim_nonblank: "c \<in> set x \<Longrightarrow> \<not> isWhiteSpace c \<Longrightarrow> trim x \<noteq> []"
proof -
  assume c: "c \<in> set x" "\<not> isWhiteSpace c"
  then have "c \<in> set (dropWhile isWhiteSpace x)" by (rule dropWhile_keeps)
  then have "c \<in> set (rev (dropWhile isWhiteSpace x))" by simp
  then have "c \<in> set (dropWhile isWhiteSpace (rev (dropWhile isWhiteSpace x)))"
    using c(2) by (rule dropWhile_keeps)
  then have "dropWhile isWhiteSpace (rev (dropWhile isWhiteSpace x)) \<noteq> []"
    by (rule in_set_not_Nil)
  then show ?thesis unfolding trim_def by (simp only: rev_is_Nil_conv not_False_eq_True)
qed

lemma splitOn_lead_cells:
  assumes "pipe \<notin> set a" "pipe \<notin> set b" "pipe \<notin> set c"
  shows "splitOn pipe (pipe # a @ pipe # b @ pipe # c @ pipe # rest)
    = [[], a, b, c] @ splitOn pipe rest"
  using assms by (simp add: splitOn_append_sep)

lemma columnsOf_row:
  assumes "cellText startT" and "cellText endT" and "cellText tagT"
  shows "columnsOf (logEntry startT endT tagT noteT minutes)
    = [startT, endT, tagT]
      @ filter (\<lambda>col. col \<noteq> []) (map trim (splitOn pipe (space # noteT @ [space])))
      @ [showInt minutes @ minutesUnit]"
proof -
  let ?d = "space # (showInt minutes @ minutesUnit) @ [space]"
  have last: "splitOn pipe (?d @ [pipe]) = [?d, []]"
    using splitOn_append_sep [of pipe ?d "[]"] by (simp add: minutesUnit_facts)
  have cells: "splitOn pipe (logEntry startT endT tagT noteT minutes) =
      [[], space # startT @ [space], space # endT @ [space], space # tagT @ [space]]
        @ splitOn pipe (space # noteT @ [space]) @ [?d, []]"
  proof -
    have "splitOn pipe ((space # noteT @ [space]) @ pipe # ?d @ [pipe])
        = splitOn pipe (space # noteT @ [space]) @ [?d, []]"
      unfolding splitOn_sep_append [of pipe "space # noteT @ [space]" "?d @ [pipe]"] last ..
    then have middle: "splitOn pipe (space # noteT @ space # pipe # ?d @ [pipe])
        = splitOn pipe (space # noteT @ [space]) @ [?d, []]"
      by simp
    have a: "pipe \<notin> set (space # startT @ [space])" "pipe \<notin> set (space # endT @ [space])"
      "pipe \<notin> set (space # tagT @ [space])"
      using assms by (simp_all add: cellText_def)
    have "logEntry startT endT tagT noteT minutes
      = pipe # (space # startT @ [space]) @ pipe # (space # endT @ [space]) @ pipe
        # (space # tagT @ [space]) @ pipe # (space # noteT @ space # pipe # ?d @ [pipe])"
      unfolding logEntry_cells by simp
    then show ?thesis unfolding middle [symmetric] using splitOn_lead_cells [OF a] by simp
  qed
  show ?thesis
    unfolding columnsOf_def cells
    using assms by (simp add: trim_padded trim_padded2 trim_duration cellText_def minutesUnit_facts)
qed

lemma rowMatches_logEntry:
  assumes "cellText startT" and "cellText endT" and "cellText tagT"
    and "c \<in> set noteT" and "\<not> isWhiteSpace c" and "c \<noteq> pipe"
  shows "rowMatches startT endT tagT (logEntry startT endT tagT noteT minutes)"
proof -
  let ?row = "logEntry startT endT tagT noteT minutes"
  let ?cells = "filter (\<lambda>col. col \<noteq> []) (map trim (splitOn pipe (space # noteT @ [space])))"
  have t: "trim ?row = ?row" using logEntry_ends by (intro trim_id) simp_all
  have first: "startsWith ?row [pipe]" by (simp add: logEntry_def str_def)
  have "c \<in> set (space # noteT @ [space])" using assms(4) by simp
  from splitOn_covers [OF this assms(6)] obtain seg where
    seg: "seg \<in> set (splitOn pipe (space # noteT @ [space]))" "c \<in> set seg" by blast
  from seg(2) assms(5) have "trim seg \<noteq> []" by (rule trim_nonblank)
  moreover have "trim seg \<in> trim ` set (splitOn pipe (space # noteT @ [space]))"
    using seg(1) by (rule imageI)
  ultimately have "trim seg \<in> set ?cells" by (simp del: splitOn.simps)
  then have "?cells \<noteq> []" by (rule in_set_not_Nil)
  then have "1 \<le> length ?cells" by (cases ?cells) simp_all
  then show ?thesis
    unfolding rowMatches_def t Let_def columnsOf_row [OF assms(1-3)]
    using first by simp
qed

lemma inserted_row_counted:
  assumes header: "findIndex (\<lambda>line. includesStr line headerRow) (splitOn newline content) = Some h"
    and sep: "h + 2 \<le> length (splitOn newline content)"
    and heading: "findIndex (\<lambda>line. includesStr line tableHeading) (splitOn newline content) = Some t"
    and above: "t \<le> h"
    and free: "newline \<notin> set row"
    and row: "rowMatches startT endT tagT row"
  shows "length (matchingRows startT endT tagT
           (joinWith newline (splice_insert (h + 2) row (splitOn newline content))))
    = length (matchingRows startT endT tagT content) + 1"
proof -
  let ?L = "splitOn newline content"
  let ?c1 = "joinWith newline (splice_insert (h + 2) row ?L)"
  have lines: "splitOn newline ?c1 = take (h + 2) ?L @ [row] @ drop (h + 2) ?L"
    using inserted_lines [OF sep, of row] free by (simp add: splitOn_no_sep)
  have "findIndex (\<lambda>line. includesStr line tableHeading) (take (h + 2) ?L) = Some t"
    using heading by (rule findIndex_take) (use above in simp)
  then have found: "findIndex (\<lambda>line. includesStr line tableHeading) (splitOn newline ?c1) = Some t"
    unfolding lines by (rule findIndex_append)
  have len: "length (take (h + 2) ?L) = h + 2" using sep by simp
  have after: "drop (t + 2) (splitOn newline ?c1)
      = drop (t + 2) (take (h + 2) ?L) @ row # drop (h + 2) ?L"
    unfolding lines using len above by simp
  have inside: "t + 2 - (h + 2) = 0" using above by simp
  have "drop (t + 2) (take (h + 2) ?L @ drop (h + 2) ?L)
      = drop (t + 2) (take (h + 2) ?L) @ drop (h + 2) ?L"
    by (simp only: drop_append len inside drop_0)
  then have before: "drop (t + 2) ?L = drop (t + 2) (take (h + 2) ?L) @ drop (h + 2) ?L"
    by (simp only: append_take_drop_id)
  have "matchingRows startT endT tagT ?c1
      = filter (rowMatches startT endT tagT) (drop (t + 2) (splitOn newline ?c1))"
    unfolding matchingRows_def Let_def found by simp
  then have "matchingRows startT endT tagT ?c1
      = filter (rowMatches startT endT tagT) (drop (t + 2) (take (h + 2) ?L))
        @ row # filter (rowMatches startT endT tagT) (drop (h + 2) ?L)"
    unfolding after using row by simp
  moreover have "matchingRows startT endT tagT content
      = filter (rowMatches startT endT tagT) (drop (t + 2) ?L)"
    unfolding matchingRows_def Let_def heading by simp
  then have "matchingRows startT endT tagT content
      = filter (rowMatches startT endT tagT) (drop (t + 2) (take (h + 2) ?L))
        @ filter (rowMatches startT endT tagT) (drop (h + 2) ?L)"
    unfolding before by simp
  ultimately show ?thesis by simp
qed

lemmas row_defs = matchingRows_def rowMatches_def columnsOf_def duplicateRows_def isDuplicateLine_def

lemma unread_rows:
  "matchingRows (str ''10:00:00'') (str ''10:25:00'') (str ''read'')
     (saveLogContent exampleSettings (str ''2024-01-15'')
        (Some (saveLogContent exampleSettings (str ''2024-01-15'') (Some (joinWith newline tableLines))
           (str ''10:00:00'') (str ''10:25:00'') (str ''read'') [] (Some 25)))
        (str ''10:00:00'') (str ''10:25:00'') (str ''read'') [] (Some 25)) = []"
  "matchingRows (str ''10:00:00'') (str ''10:25:00'') (str ''read'')
     (saveLogContent exampleSettings (str ''2024-01-15'')
        (Some (saveLogContent exampleSettings (str ''2024-01-15'') (Some (joinWith newline tableLines))
           (str ''10:00:00'') (str ''10:25:00'') (str ''read'') lineBreakTag (Some 25)))
        (str ''10:00:00'') (str ''10:25:00'') (str ''read'') lineBreakTag (Some 25)) = []"
  "matchingRows (str ''10:00:00'') (str ''10:25:00'') (str ''a|b'')
     (saveLogContent exampleSettings (str ''2024-01-15'')
        (Some (saveLogContent exampleSettings (str ''2024-01-15'') (Some (joinWith newline tableLines))
           (str ''10:00:00'') (str ''10:25:00'') (str ''a|b'') (str ''second'') (Some 25)))
        (str ''10:00:00'') (str ''10:25:00'') (str ''a|b'') (str ''second'') (Some 25)) = []"
  "matchingRows (str ''10:00:00'') (str ''10:25:00'') (str ''read'')
     (saveLogContent exampleSettings (str ''2024-01-15'')
        (Some (saveLogContent exampleSettings (str ''2024-01-15'') (Some headingBelowTable)
           (str ''10:00:00'') (str ''10:25:00'') (str ''read'') (str ''second'') (Some 25)))
        (str ''10:00:00'') (str ''10:25:00'') (str ''read'') (str ''second'') (Some 25)) = []"
  unfolding tableLines_def firstRow_def lineBreakTag_def headingBelowTable_def
  by (simp_all add: save_defs row_defs str_defs showNat_25 exampleSettings_def)

lemma tableLines_rows:
  "matchingRows (str ''10:00:00'') (str ''10:25:00'') (str ''read'') (joinWith newline tableLines) = []"
  "duplicateRows (duplicateKey (str ''10:00:00'') (str ''10:25:00'') (str ''read''))
     (joinWith newline tableLines) = []"
  unfolding tableLines_def firstRow_def
  by (simp_all add: save_defs row_defs str_defs showNat_25)

text \<open>
  C2, as amended. For a document with the heading and the header row, the header row
  followed by at least one more line (the separator row), and a start time, end time and
  tag without a line break: saving the same entry a second time leaves the content as the
  first save left it. When moreover the heading does not stand below the header row, the
  start time, end time and tag can stand in a cell as they are (not empty, no white space
  at either end, no pipe), and the notes hold a character that is neither white space nor
  a pipe, and no line break, then the data rows of that start time, end time and tag (the
  rows below the heading whose first three cells are these, as \<open>updateLogEntry\<close> finds
  them) are, after the two saves, one more than before when the duplicate check found no
  row of the key in the document, and as many as before when it found one. So a document
  in which neither the duplicate check nor the reading by cells finds a row for the key has
  exactly one afterwards. And when the notes have no line break, the lines that the
  duplicate check finds for the key from the insert position on are then one, or as many
  as the document had before if it had more.
\<close>

theorem saveLogContent_idempotent:
  assumes "includesStr content tableHeading"
    and "findIndex (\<lambda>line. includesStr line headerRow) (splitOn newline content) = Some h"
    and "h + 2 \<le> length (splitOn newline content)"
    and "newline \<notin> set startT" and "newline \<notin> set endT" and "newline \<notin> set tagT"
    and "once = saveLogContent cfg dateString (Some content) startT endT tagT noteT durationMinutes"
    and "twice = saveLogContent cfg dateString (Some once) startT endT tagT noteT durationMinutes"
  shows "twice = once
    \<and> (findIndex (\<lambda>line. includesStr line tableHeading) (splitOn newline content) = Some t
        \<and> t \<le> h \<and> cellText startT \<and> cellText endT \<and> cellText tagT
        \<and> (\<exists>c \<in> set noteT. \<not> isWhiteSpace c \<and> c \<noteq> pipe) \<and> newline \<notin> set noteT
       \<longrightarrow> length (matchingRows startT endT tagT twice)
            = length (matchingRows startT endT tagT content)
              + (if duplicateRows (duplicateKey startT endT tagT) content = [] then 1 else 0))
    \<and> (newline \<notin> set noteT
       \<longrightarrow> length (duplicateRows (duplicateKey startT endT tagT) twice)
            = max 1 (length (duplicateRows (duplicateKey startT endT tagT) content)))"
proof -
  let ?L = "splitOn newline content"
  let ?key = "duplicateKey startT endT tagT"
  let ?row = "logEntry startT endT tagT noteT (finalDurationMinutes cfg durationMinutes)"
  have hdr: "includesStr content headerRow" using assms(2) by (rule header_line_in_content)
  have rows: "duplicateRows ?key content = filter (isDuplicateLine ?key) (drop (h + 2) ?L)"
    using assms(2) by (simp add: duplicateRows_def Let_def)
  show ?thesis
  proof (cases "hasDuplicate ?key (drop (h + 2) ?L)")
    case True
    then have none: "insertLogEntry content startT endT tagT ?row = None"
      using hdr assms(2) by (simp add: insertLogEntry_def Let_def)
    then have once: "once = content"
      using assms(1,7) by (simp add: saveLogContent_def ensureTable_def Let_def)
    then have twice: "twice = content"
      using none assms(1,8) by (simp add: saveLogContent_def ensureTable_def Let_def)
    from True have some: "duplicateRows ?key content \<noteq> []"
      unfolding rows by (auto simp: hasDuplicate_iff filter_empty_conv)
    then have "1 \<le> length (duplicateRows ?key content)"
      by (cases "duplicateRows ?key content") simp_all
    with some once twice show ?thesis by simp
  next
    case False
    define c1 where "c1 = joinWith newline (splice_insert (h + 2) ?row ?L)"
    from False have "insertLogEntry content startT endT tagT ?row = Some c1"
      using hdr assms(2) by (simp add: insertLogEntry_def Let_def c1_def)
    then have once: "once = c1"
      using assms(1,7) by (simp add: saveLogContent_def ensureTable_def Let_def)
    note after = insert_then_duplicate [OF assms(2,3,4,5,6) c1_def]
    have "includesStr c1 tableHeading"
      unfolding c1_def using assms(1) by (rule insert_keeps_heading) simp
    then have twice: "twice = c1"
      using after(3) [of ?row] assms(8) once
      by (simp add: saveLogContent_def ensureTable_def Let_def)
    from False have no_rows: "duplicateRows ?key content = []"
      unfolding rows by (auto simp: hasDuplicate_iff filter_empty_conv)
    have count: "length (matchingRows startT endT tagT twice)
        = length (matchingRows startT endT tagT content) + 1"
      if heading: "findIndex (\<lambda>line. includesStr line tableHeading) ?L = Some t"
        and above: "t \<le> h"
        and cells: "cellText startT" "cellText endT" "cellText tagT"
        and ink: "\<exists>c \<in> set noteT. \<not> isWhiteSpace c \<and> c \<noteq> pipe"
        and note_free: "newline \<notin> set noteT"
    proof -
      have free: "newline \<notin> set ?row"
        using assms(4,5,6) note_free by (rule logEntry_no_newline)
      from ink obtain c where "c \<in> set noteT" "\<not> isWhiteSpace c" "c \<noteq> pipe" by blast
      with cells have "rowMatches startT endT tagT ?row" by (rule rowMatches_logEntry)
      from inserted_row_counted [OF assms(2,3) heading above free this]
      show ?thesis unfolding twice c1_def .
    qed
    have found: "length (duplicateRows ?key twice) = max 1 (length (duplicateRows ?key content))"
      if note_free: "newline \<notin> set noteT"
    proof -
      have "newline \<notin> set ?row"
        using assms(4,5,6) note_free by (rule logEntry_no_newline)
      then have "drop (h + 2) (splitOn newline c1) = ?row # drop (h + 2) ?L"
        using after(2) by (simp add: splitOn_no_sep)
      moreover have "isDuplicateLine ?key ?row"
        unfolding logEntry_key by (rule key_isDuplicate)
      ultimately show ?thesis
        using after(1) twice no_rows rows by (simp add: duplicateRows_def Let_def)
    qed
    from once twice count found no_rows show ?thesis by simp
  qed
qed

text \<open>The claim as it was stated fails in several ways. A tag with a line break in it is
  never found again by the duplicate check, which looks at one line at a time: on the
  example table the second save does not return the content of the first. In a document
  that ends with the header row, the first save appends the row below the insert position,
  where the check of the second save does not look: the row is there twice. And there is
  no data row for the start time, end time and tag after the two saves, instead of one,
  where the row written is not read as such a row: with empty notes it has four cells;
  with a line break in the notes it is spread over two lines; a tag \<^verbatim>\<open>a|b\<close> is read as the
  cell \<^verbatim>\<open>a\<close>; and where the heading stands below the header row, the row is inserted above
  the lines that are read as the table.\<close>

theorem save_twice_counterexample:
  "includesStr (joinWith newline tableLines) tableHeading
    \<and> includesStr (joinWith newline tableLines) headerRow
    \<and> saveLogContent exampleSettings (str ''2024-01-15'')
        (Some (saveLogContent exampleSettings (str ''2024-01-15'') (Some (joinWith newline tableLines))
           (str ''10:00:00'') (str ''10:25:00'') lineBreakTag (str ''second'') (Some 25)))
        (str ''10:00:00'') (str ''10:25:00'') lineBreakTag (str ''second'') (Some 25)
      \<noteq> saveLogContent exampleSettings (str ''2024-01-15'') (Some (joinWith newline tableLines))
           (str ''10:00:00'') (str ''10:25:00'') lineBreakTag (str ''second'') (Some 25)
    \<and> includesStr headerOnlyTable tableHeading
    \<and> includesStr headerOnlyTable headerRow
    \<and> saveLogContent exampleSettings (str ''2024-01-15'')
        (Some (saveLogContent exampleSettings (str ''2024-01-15'') (Some headerOnlyTable)
           (str ''10:00:00'') (str ''10:25:00'') (str ''read'') (str ''second'') (Some 25)))
        (str ''10:00:00'') (str ''10:25:00'') (str ''read'') (str ''second'') (Some 25)
      = joinWith newline [tableHeading, headerRow, secondRow, secondRow]
    \<and> matchingRows (str ''10:00:00'') (str ''10:25:00'') (str ''read'')
        (saveLogContent exampleSettings (str ''2024-01-15'')
          (Some (saveLogContent exampleSettings (str ''2024-01-15'') (Some (joinWith newline tableLines))
             (str ''10:00:00'') (str ''10:25:00'') (str ''read'') [] (Some 25)))
          (str ''10:00:00'') (str ''10:25:00'') (str ''read'') [] (Some 25)) = []
    \<and> matchingRows (str ''10:00:00'') (str ''10:25:00'') (str ''read'')
        (saveLogContent exampleSettings (str ''2024-01-15'')
          (Some (saveLogContent exampleSettings (str ''2024-01-15'') (Some (joinWith newline tableLines))
             (str ''10:00:00'') (str ''10:25:00'') (str ''read'') lineBreakTag (Some 25)))
          (str ''10:00:00'') (str ''10:25:00'') (str ''read'') lineBreakTag (Some 25)) = []
    \<and> matchingRows (str ''10:00:00'') (str ''10:25:00'') (str ''a|b'')
        (saveLogContent exampleSettings (str ''2024-01-15'')
          (Some (saveLogContent exampleSettings (str ''2024-01-15'') (Some (joinWith newline tableLines))
             (str ''10:00:00'') (str ''10:25:00'') (str ''a|b'') (str ''second'') (Some 25)))
          (str ''10:00:00'') (str ''10:25:00'') (str ''a|b'') (str ''second'') (Some 25)) = []
    \<and> includesStr headingBelowTable tableHeading
    \<and> includesStr headingBelowTable headerRow
    \<and> matchingRows (str ''10:00:00'') (str ''10:25:00'') (str ''read'')
        (saveLogContent exampleSettings (str ''2024-01-15'')
          (Some (saveLogContent exampleSettings (str ''2024-01-15'') (Some headingBelowTable)
             (str ''10:00:00'') (str ''10:25:00'') (str ''read'') (str ''second'') (Some 25)))
          (str ''10:00:00'') (str ''10:25:00'') (str ''read'') (str ''second'') (Some 25)) = []"
proof -
  have a: "includesStr (joinWith newline tableLines) tableHeading"
    by (rule joined_includes [of tableHeading]) (simp_all add: tableLines_def)
  have b: "includesStr (joinWith newline tableLines) headerRow"
    by (rule joined_includes [of headerRow]) (simp_all add: tableLines_def)
  have c: "includesStr headerOnlyTable tableHeading"
    unfolding headerOnlyTable_def by (rule joined_includes [of tableHeading]) simp_all
  have d: "includesStr headerOnlyTable headerRow"
    unfolding headerOnlyTable_def by (rule joined_includes [of headerRow]) simp_all
  let ?row = "logEntry (str ''10:00:00'') (str ''10:25:00'') lineBreakTag (str ''second'') 25"
  have "length (joinWith newline [tableHeading, [], headerRow, separatorRow, ?row, ?row, firstRow])
      \<noteq> length (joinWith newline [tableHeading, [], headerRow, separatorRow, ?row, firstRow])"
    by simp
  then have e: "joinWith newline [tableHeading, [], headerRow, separatorRow, ?row, ?row, firstRow]
      \<noteq> joinWith newline [tableHeading, [], headerRow, separatorRow, ?row, firstRow]"
    by (metis (no_types))
  have f: "includesStr headingBelowTable tableHeading"
    unfolding headingBelowTable_def by (rule joined_includes [of tableHeading]) simp_all
  have g: "includesStr headingBelowTable headerRow"
    unfolding headingBelowTable_def by (rule joined_includes [of headerRow]) simp_all
  show ?thesis
    unfolding lineBreak_once lineBreak_twice headerOnly_once headerOnly_twice unread_rows
    using a b c d e f g by blast
qed

theorem saveLogContent_idempotent_witness:
  "saveLogContent exampleSettings (str ''2024-01-15'')
     (Some (saveLogContent exampleSettings (str ''2024-01-15'') (Some (joinWith newline tableLines))
        (str ''10:00:00'') (str ''10:25:00'') (str ''read'') (str ''second'') (Some 25)))
     (str ''10:00:00'') (str ''10:25:00'') (str ''read'') (str ''second'') (Some 25)
   = saveLogContent exampleSettings (str ''2024-01-15'') (Some (joinWith newline tableLines))
        (str ''10:00:00'') (str ''10:25:00'') (str ''read'') (str ''second'') (Some 25)
   \<and> length (matchingRows (str ''10:00:00'') (str ''10:25:00'') (str ''read'')
        (saveLogContent exampleSettings (str ''2024-01-15'')
          (Some (saveLogContent exampleSettings (str ''2024-01-15'') (Some (joinWith newline tableLines))
             (str ''10:00:00'') (str ''10:25:00'') (str ''read'') (str ''second'') (Some 25)))
          (str ''10:00:00'') (str ''10:25:00'') (str ''read'') (str ''second'') (Some 25))) = 1
   \<and> length (duplicateRows (duplicateKey (str ''10:00:00'') (str ''10:25:00'') (str ''read''))
        (saveLogContent exampleSettings (str ''2024-01-15'')
          (Some (saveLogContent exampleSettings (str ''2024-01-15'') (Some (joinWith newline tableLines))
             (str ''10:00:00'') (str ''10:25:00'') (str ''read'') (str ''second'') (Some 25)))
          (str ''10:00:00'') (str ''10:25:00'') (str ''read'') (str ''second'') (Some 25))) = 1"
proof -
  have heading: "includesStr (joinWith newline tableLines) tableHeading"
    by (rule joined_includes [of tableHeading]) (simp_all add: tableLines_def)
  have header: "findIndex (\<lambda>line. includesStr line headerRow)
      (splitOn newline (joinWith newline tableLines)) = Some 2"
    unfolding tableLines_split by (simp add: tableLines_def str_defs)
  have sep: "2 + 2 \<le> length (splitOn newline (joinWith newline tableLines))"
    unfolding tableLines_split by (simp add: tableLines_def)
  have free: "newline \<notin> set (str ''10:00:00'')" "newline \<notin> set (str ''10:25:00'')"
    "newline \<notin> set (str ''read'')"
    by (simp_all add: str_def)
  have top: "findIndex (\<lambda>line. includesStr line tableHeading)
      (splitOn newline (joinWith newline tableLines)) = Some 0"
    unfolding tableLines_split by (simp add: tableLines_def)
  have cells: "cellText (str ''10:00:00'')" "cellText (str ''10:25:00'')" "cellText (str ''read'')"
    by (simp_all add: cellText_def trim_def isWhiteSpace_def str_def)
  have ink: "\<exists>c \<in> set (str ''second''). \<not> isWhiteSpace c \<and> c \<noteq> pipe"
    "newline \<notin> set (str ''second'')"
    by (simp_all add: isWhiteSpace_def str_def)
  note inst = saveLogContent_idempotent [where t = 0 and cfg = exampleSettings
      and dateString = "str ''2024-01-15''" and noteT = "str ''second''"
      and durationMinutes = "Some 25", OF heading header sep free refl refl]
  show ?thesis
  proof (intro conjI)
    show "saveLogContent exampleSettings (str ''2024-01-15'')
       (Some (saveLogContent exampleSettings (str ''2024-01-15'') (Some (joinWith newline tableLines))
          (str ''10:00:00'') (str ''10:25:00'') (str ''read'') (str ''second'') (Some 25)))
       (str ''10:00:00'') (str ''10:25:00'') (str ''read'') (str ''second'') (Some 25)
     = saveLogContent exampleSettings (str ''2024-01-15'') (Some (joinWith newline tableLines))
          (str ''10:00:00'') (str ''10:25:00'') (str ''read'') (str ''second'') (Some 25)"
      using inst by (rule conjunct1)
    have "length (matchingRows (str ''10:00:00'') (str ''10:25:00'') (str ''read'')
        (saveLogContent exampleSettings (str ''2024-01-15'')
          (Some (saveLogContent exampleSettings (str ''2024-01-15'') (Some (joinWith newline tableLines))
             (str ''10:00:00'') (str ''10:25:00'') (str ''read'') (str ''second'') (Some 25)))
          (str ''10:00:00'') (str ''10:25:00'') (str ''read'') (str ''second'') (Some 25)))
      = length (matchingRows (str ''10:00:00'') (str ''10:25:00'') (str ''read'')
          (joinWith newline tableLines))
        + (if duplicateRows (duplicateKey (str ''10:00:00'') (str ''10:25:00'') (str ''read''))
                (joinWith newline tableLines) = [] then 1 else 0)"
      using inst top cells ink by blast
    then show "length (matchingRows (str ''10:00:00'') (str ''10:25:00'') (str ''read'')
        (saveLogContent exampleSettings (str ''2024-01-15'')
          (Some (saveLogContent exampleSettings (str ''2024-01-15'') (Some (joinWith newline tableLines))
             (str ''10:00:00'') (str ''10:25:00'') (str ''read'') (str ''second'') (Some 25)))
          (str ''10:00:00'') (str ''10:25:00'') (str ''read'') (str ''second'') (Some 25))) = 1"
      unfolding tableLines_rows by simp
    have "length (duplicateRows (duplicateKey (str ''10:00:00'') (str ''10:25:00'') (str ''read''))
        (saveLogContent exampleSettings (str ''2024-01-15'')
          (Some (saveLogContent exampleSettings (str ''2024-01-15'') (Some (joinWith newline tableLines))
             (str ''10:00:00'') (str ''10:25:00'') (str ''read'') (str ''second'') (Some 25)))
          (str ''10:00:00'') (str ''10:25:00'') (str ''read'') (str ''second'') (Some 25)))
      = max 1 (length (duplicateRows
          (duplicateKey (str ''10:00:00'') (str ''10:25:00'') (str ''read''))
          (joinWith newline tableLines)))"
      using inst ink(2) by blast
    then show "length (duplicateRows
        (duplicateKey (str ''10:00:00'') (str ''10:25:00'') (str ''read''))
        (saveLogContent exampleSettings (str ''2024-01-15'')
          (Some (saveLogContent exampleSettings (str ''2024-01-15'') (Some (joinWith newline tableLines))
             (str ''10:00:00'') (str ''10:25:00'') (str ''read'') (str ''second'') (Some 25)))
          (str ''10:00:00'') (str ''10:25:00'') (str ''read'') (str ''second'') (Some 25))) = 1"
      unfolding tableLines_rows by simp
  qed
qed

section \<open>The two date formatters\<close>

lemma getFormattedDate_chars:
  "c \<in> set (getFormattedDate d) \<Longrightarrow> isDigit c \<or> c = dash \<or> c = 43"
  using padStart_digits
  by (fastforce simp: getFormattedDate_def isoYear_def split: if_splits)

lemma normalizeSlashes_append:
  "normalizeSlashes (a @ b) = normalizeSlashes a @ normalizeSlashes b"
  by (simp add: normalizeSlashes_def)

lemma normalizeSlashes_same: "backslash \<notin> set s \<Longrightarrow> normalizeSlashes s = s"
  by (induction s) (simp_all add: normalizeSlashes_def)

lemma logFilePath_prefix:
  "\<exists>p. \<forall>fileName. logFilePath cfg d fileName = p @ normalizeSlashes fileName"
proof (cases "diaryPath cfg = []")
  case True
  then have "\<forall>fileName. logFilePath cfg d fileName = [] @ normalizeSlashes fileName"
    by (simp add: logFilePath_def Let_def)
  then show ?thesis by blast
next
  case False
  show ?thesis
  proof (cases "endsWith (normalizeSlashes (diaryPath cfg)) [slash]")
    case True
    with False have "\<forall>fileName. logFilePath cfg d fileName =
        normalizeSlashes (normalizeSlashes (diaryPath cfg) @ showInt (getFullYear d) @ slash
          # padStart 2 (showNat (getMonth d + 1)) @ [slash]) @ normalizeSlashes fileName"
      by (simp add: logFilePath_def Let_def normalizeSlashes_def)
    then show ?thesis by blast
  next
    case no_slash: False
    with False have "\<forall>fileName. logFilePath cfg d fileName =
        normalizeSlashes (normalizeSlashes (diaryPath cfg) @ slash # showInt (getFullYear d) @ slash
          # padStart 2 (showNat (getMonth d + 1)) @ [slash]) @ normalizeSlashes fileName"
      by (simp add: logFilePath_def Let_def normalizeSlashes_def)
    then show ?thesis by blast
  qed
qed

lemma slash_format_names_differ:
  "getFileNameDate (cfg\<lparr>dateFormat := str ''YYYY/MM/DD''\<rparr>) d \<noteq> getFormattedDate d"
proof -
  have "slash \<in> set (getFileNameDate (cfg\<lparr>dateFormat := str ''YYYY/MM/DD''\<rparr>) d)"
    by (simp add: getFileNameDate_def Let_def)
  moreover have "slash \<notin> set (getFormattedDate d)"
    using getFormattedDate_chars [of slash d] by (auto simp: isDigit_def)
  ultimately show ?thesis by metis
qed

lemma slash_format_paths_differ:
  "logFilePath (cfg\<lparr>dateFormat := str ''YYYY/MM/DD''\<rparr>) d
       (getFileNameDate (cfg\<lparr>dateFormat := str ''YYYY/MM/DD''\<rparr>) d @ str ''.md'')
     \<noteq> logFilePath (cfg\<lparr>dateFormat := str ''YYYY/MM/DD''\<rparr>) d (getFormattedDate d @ str ''.md'')"
proof -
  let ?cfg = "cfg\<lparr>dateFormat := str ''YYYY/MM/DD''\<rparr>"
  obtain p where p: "\<And>fileName. logFilePath ?cfg d fileName = p @ normalizeSlashes fileName"
    using logFilePath_prefix [of ?cfg d] by blast
  have a: "backslash \<notin> set (getFileNameDate ?cfg d @ str ''.md'')"
    using getFileNameDate_chars [of backslash ?cfg d] by (auto simp: isDigit_def str_def)
  have b: "backslash \<notin> set (getFormattedDate d @ str ''.md'')"
    using getFormattedDate_chars [of backslash d] by (auto simp: isDigit_def str_def)
  show ?thesis
    unfolding p normalizeSlashes_same [OF a] normalizeSlashes_same [OF b]
    using slash_format_names_differ [of cfg d] by simp
qed

lemma showNat_16: "showNat 16 = [49, 54]"
  by (simp add: showNat.simps digitChar_def)

lemma morning_paths:
  "getFileNameDate exampleSettings morningDate = str ''2024-01-16''"
  "getFileNameDate slashSettings morningDate = str ''2024/01/16''"
  "getFormattedDate morningDate = str ''2024-01-15''"
  "logFilePath exampleSettings morningDate (str ''2024-01-16'' @ str ''.md'')
     = str ''01Inbox/daily/2024/01/2024-01-16.md''"
  "logFilePath exampleSettings morningDate (str ''2024-01-15'' @ str ''.md'')
     = str ''01Inbox/daily/2024/01/2024-01-15.md''"
  by (simp_all add: path_defs morningDate_def showNat_examples showNat_16 str_def Let_def)

lemma morning_folders:
  "beforeLastSlash (str ''01Inbox/daily/2024/01/2024-01-16.md'') = str ''01Inbox/daily/2024/01''"
  "createDirectoryRecursive Map.empty (str ''01Inbox/daily/2024/01'') =
     Inr (Map.empty
       (str ''01Inbox'' \<mapsto> TFolder,
        str ''01Inbox/daily'' \<mapsto> TFolder,
        str ''01Inbox/daily/2024'' \<mapsto> TFolder,
        str ''01Inbox/daily/2024/01'' \<mapsto> TFolder))"
  by (simp_all add: beforeLastSlash_def createDirectoryRecursive_def str_def)

lemma morningVault_eq:
  "morningVault =
     (Map.empty
       (str ''01Inbox'' \<mapsto> TFolder,
        str ''01Inbox/daily'' \<mapsto> TFolder,
        str ''01Inbox/daily/2024'' \<mapsto> TFolder,
        str ''01Inbox/daily/2024/01'' \<mapsto> TFolder,
        str ''01Inbox/daily/2024/01/2024-01-16.md'' \<mapsto>
          TFile (saveLogContent exampleSettings (str ''2024-01-16'') None (str ''06:35:00'')
            (str ''07:00:00'') (str ''work'') (str ''first'') (Some 25))))"
proof -
  let ?v1 = "Map.empty
       (str ''01Inbox'' \<mapsto> TFolder,
        str ''01Inbox/daily'' \<mapsto> TFolder,
        str ''01Inbox/daily/2024'' \<mapsto> TFolder,
        str ''01Inbox/daily/2024/01'' \<mapsto> TFolder)"
  have vacant: "?v1 (str ''01Inbox/daily/2024/01/2024-01-16.md'') = None"
    by simp
  have dirs: "(if beforeLastSlash (str ''01Inbox/daily/2024/01/2024-01-16.md'') \<noteq> []
          \<and> emptyVault (beforeLastSlash (str ''01Inbox/daily/2024/01/2024-01-16.md'')) = None
        then createDirectoryRecursive emptyVault
               (beforeLastSlash (str ''01Inbox/daily/2024/01/2024-01-16.md''))
        else Inr emptyVault) = Inr ?v1"
    by (simp add: morning_folders emptyVault_def)
  have "saveLogEntry exampleSettings None morningDate emptyVault (str ''06:35:00'')
          (str ''07:00:00'') (str ''work'') (str ''first'') (Some 25) =
        (?v1(str ''01Inbox/daily/2024/01/2024-01-16.md'' \<mapsto>
           TFile (saveLogContent exampleSettings (str ''2024-01-16'')
             (fileText (?v1 (str ''01Inbox/daily/2024/01/2024-01-16.md''))) (str ''06:35:00'')
             (str ''07:00:00'') (str ''work'') (str ''first'') (Some 25))),
         [RecordSaved (str ''work'') (Some 25)])"
    by (rule saveLogEntry_content [where targetDate = morningDate])
       (simp_all add: targetDateOf_def morning_paths dirs vacant)
  then show ?thesis
    by (simp add: morningVault_def vacant fileText_def)
qed

text \<open>With the default format, a save at seven in the morning of the 16th of January 2024,
  eight hours east of Greenwich, writes \<^verbatim>\<open>01Inbox/daily/2024/01/2024-01-16.md\<close>; the update of
  the notes of that very entry looks for \<^verbatim>\<open>01Inbox/daily/2024/01/2024-01-15.md\<close>, the UTC
  date, finds no file there and reports that the diary file does not exist.\<close>

lemma morning_update_misses_file:
  "morningVault (str ''01Inbox/daily/2024/01/2024-01-16.md'') \<noteq> None
    \<and> morningVault (str ''01Inbox/daily/2024/01/2024-01-15.md'') = None
    \<and> updateLogEntry exampleSettings None morningDate morningVault (str ''06:35:00'')
          (str ''07:00:00'') (str ''work'') (str ''new notes'') = (morningVault, [DiaryFileMissing])"
proof -
  have wrote: "morningVault (str ''01Inbox/daily/2024/01/2024-01-16.md'') \<noteq> None"
    and absent: "morningVault (str ''01Inbox/daily/2024/01/2024-01-15.md'') = None"
    by (simp_all add: morningVault_eq)
  have "updateLogEntry exampleSettings None morningDate morningVault (str ''06:35:00'')
          (str ''07:00:00'') (str ''work'') (str ''new notes'') = (morningVault, [DiaryFileMissing])"
    unfolding updateLogEntry_def targetDateOf_def Let_def
    by (simp add: morning_paths absent)
  with wrote absent show ?thesis by simp
qed

text \<open>\<open>getFormattedDate\<close> reads the UTC fields of the date only, \<open>getFileNameDate\<close> the local
  fields only; and \<open>updateLogEntry\<close> reports a missing diary file whenever no file stands at
  the path named by \<open>getFormattedDate\<close>.\<close>

lemma getFormattedDate_utc_fields:
  "getFormattedDate (d\<lparr>getFullYear := y, getMonth := m, getDate := n\<rparr>) = getFormattedDate d"
  by (simp add: getFormattedDate_def)

lemma getFileNameDate_local_fields:
  "getFileNameDate cfg (d\<lparr>utcFullYear := y, utcMonth := m, utcDate := n\<rparr>) = getFileNameDate cfg d"
  by (simp add: getFileNameDate_def)

lemma updateLogEntry_missing:
  "v (logFilePath cfg (targetDateOf currentDate now)
        (getFormattedDate (targetDateOf currentDate now) @ str ''.md'')) = None
    \<Longrightarrow> updateLogEntry cfg currentDate now v startT endT tagT newNotes = (v, [DiaryFileMissing])"
  by (simp add: updateLogEntry_def Let_def)

text \<open>
  C9. \<open>updateLogEntry\<close> names the file by \<open>getFormattedDate\<close>, the UTC date in ISO form,
  which does not take the settings; \<open>saveLogEntry\<close> names it by \<open>getFileNameDate\<close>, which
  follows the date format and prints the local date. Under the format \<^verbatim>\<open>YYYY/MM/DD\<close> the two
  file names, and the two paths, differ for every date and every other setting.
  \<open>getFormattedDate\<close> does not depend on the local fields of the date, nor
  \<open>getFileNameDate\<close> on the UTC fields; and \<open>updateLogEntry\<close> reports that the diary file
  does not exist whenever no file stands at the path that \<open>getFormattedDate\<close> names. With
  the settings of the example and the format \<^verbatim>\<open>YYYY/MM/DD\<close>, the save of an entry on the 15th
  of January 2024 into an empty vault writes \<^verbatim>\<open>01Inbox/daily/2024/01/2024/01/15.md\<close>; the
  update of the notes of that entry finds no file at \<^verbatim>\<open>01Inbox/daily/2024/01/2024-01-15.md\<close>
  and reports that the diary file does not exist. With the default format, at a moment of
  the 16th of January 2024 that is still the 15th in UTC, \<open>getFileNameDate\<close> gives
  \<^verbatim>\<open>2024-01-16\<close> and \<open>getFormattedDate\<close> gives \<^verbatim>\<open>2024-01-15\<close>: the save writes
  \<^verbatim>\<open>01Inbox/daily/2024/01/2024-01-16.md\<close>, the update finds no file at
  \<^verbatim>\<open>01Inbox/daily/2024/01/2024-01-15.md\<close> and reports that the diary file does not exist.
\<close>

theorem update_reads_another_path:
  "getFileNameDate (cfg\<lparr>dateFormat := str ''YYYY/MM/DD''\<rparr>) d \<noteq> getFormattedDate d
    \<and> logFilePath (cfg\<lparr>dateFormat := str ''YYYY/MM/DD''\<rparr>) d
          (getFileNameDate (cfg\<lparr>dateFormat := str ''YYYY/MM/DD''\<rparr>) d @ str ''.md'')
        \<noteq> logFilePath (cfg\<lparr>dateFormat := str ''YYYY/MM/DD''\<rparr>) d
            (getFormattedDate d @ str ''.md'')
    \<and> getFileNameDate exampleSettings exampleDate = str ''2024-01-15''
    \<and> getFileNameDate slashSettings exampleDate = str ''2024/01/15''
    \<and> getFormattedDate exampleDate = str ''2024-01-15''
    \<and> savedVault (str ''01Inbox/daily/2024/01/2024/01/15.md'') \<noteq> None
    \<and> savedVault (str ''01Inbox/daily/2024/01/2024-01-15.md'') = None
    \<and> updateLogEntry slashSettings None exampleDate savedVault (str ''09:00:00'')
          (str ''09:25:00'') (str ''work'') (str ''new notes'') = (savedVault, [DiaryFileMissing])
    \<and> getFormattedDate (d\<lparr>getFullYear := y, getMonth := m, getDate := n\<rparr>) = getFormattedDate d
    \<and> getFileNameDate cfg (d\<lparr>utcFullYear := y, utcMonth := m, utcDate := n\<rparr>)
        = getFileNameDate cfg d
    \<and> (v (logFilePath cfg (targetDateOf currentDate now)
             (getFormattedDate (targetDateOf currentDate now) @ str ''.md'')) = None
        \<longrightarrow> updateLogEntry cfg currentDate now v startT endT tagT newNotes
              = (v, [DiaryFileMissing]))
    \<and> getFileNameDate exampleSettings morningDate = str ''2024-01-16''
    \<and> getFileNameDate slashSettings morningDate = str ''2024/01/16''
    \<and> getFormattedDate morningDate = str ''2024-01-15''
    \<and> morningVault (str ''01Inbox/daily/2024/01/2024-01-16.md'') \<noteq> None
    \<and> morningVault (str ''01Inbox/daily/2024/01/2024-01-15.md'') = None
    \<and> updateLogEntry exampleSettings None morningDate morningVault (str ''06:35:00'')
          (str ''07:00:00'') (str ''work'') (str ''new notes'') = (morningVault, [DiaryFileMissing])"
  using slash_format_names_differ [of cfg d] slash_format_paths_differ [of cfg d]
    example_update_misses_file morning_update_misses_file morning_paths(1,2,3)
    getFormattedDate_utc_fields [where d = d and y = y and m = m and n = n]
    getFileNameDate_local_fields [where cfg = cfg and d = d and y = y and m = m and n = n]
    updateLogEntry_missing [where v = v and cfg = cfg and currentDate = currentDate
      and now = now and startT = startT and endT = endT and tagT = tagT and newNotes = newNotes]
  by blast

theorem update_reads_another_path_witness:
  "logFilePath slashSettings exampleDate (getFileNameDate slashSettings exampleDate @ str ''.md'')
     \<noteq> logFilePath slashSettings exampleDate (getFormattedDate exampleDate @ str ''.md'')
    \<and> updateLogEntry slashSettings None exampleDate savedVault (str ''09:00:00'')
          (str ''09:25:00'') (str ''work'') (str ''new notes'') = (savedVault, [DiaryFileMissing])
    \<and> morningVault (logFilePath exampleSettings (targetDateOf None morningDate)
         (getFormattedDate (targetDateOf None morningDate) @ str ''.md'')) = None
    \<and> updateLogEntry exampleSettings None morningDate morningVault (str ''06:35:00'')
          (str ''07:00:00'') (str ''work'') (str ''other notes'')
        = (morningVault, [DiaryFileMissing])"
proof -
  have absent: "morningVault (logFilePath exampleSettings (targetDateOf None morningDate)
      (getFormattedDate (targetDateOf None morningDate) @ str ''.md'')) = None"
    by (simp add: targetDateOf_def morning_paths morningVault_eq)
  show ?thesis
    unfolding slashSettings_def
    using absent update_reads_another_path [where cfg = exampleSettings and d = exampleDate
        and v = morningVault and currentDate = None and now = morningDate
        and startT = "str ''06:35:00''" and endT = "str ''07:00:00''" and tagT = "str ''work''"
        and newNotes = "str ''other notes''"]
    unfolding slashSettings_def
    by blast
qed

section \<open>The vault where nothing is to be written\<close>

text \<open>Without a row for the key in the file, be the heading there or not, and without the
  file, \<open>updateLogEntry\<close> leaves the vault as it is. With a row of the key in the table of
  an existing file, \<open>saveLogEntry\<close> leaves the vault as it is and shows its notice.\<close>

lemma updateContent_without_match:
  assumes "\<forall>l \<in> set (splitOn newline content). \<not> rowMatches startT endT tagT l"
  shows "updateContent content startT endT tagT newNotes = NoHeading
    \<or> updateContent content startT endT tagT newNotes = NoSuchRow"
proof (cases "findIndex (\<lambda>line. includesStr line tableHeading) (splitOn newline content)")
  case None
  then show ?thesis by (simp add: updateContent_def Let_def)
next
  case (Some i)
  from assms have "\<forall>l \<in> set (drop (i + 2) (splitOn newline content)). \<not> rowMatches startT endT tagT l"
    by (auto dest: in_set_dropD)
  from updateContent_no_row [OF Some this] show ?thesis by simp
qed

lemma updateLogEntry_without_match:
  assumes "\<forall>content. v (logFilePath cfg (targetDateOf currentDate now)
        (getFormattedDate (targetDateOf currentDate now) @ str ''.md'')) = Some (TFile content)
      \<longrightarrow> (\<forall>l \<in> set (splitOn newline content). \<not> rowMatches startT endT tagT l)"
  shows "fst (updateLogEntry cfg currentDate now v startT endT tagT newNotes) = v"
proof (cases "v (logFilePath cfg (targetDateOf currentDate now)
        (getFormattedDate (targetDateOf currentDate now) @ str ''.md''))")
  case None
  then show ?thesis by (simp add: updateLogEntry_def Let_def)
next
  case (Some n)
  show ?thesis
  proof (cases n)
    case (TFile content)
    with Some assms
    have "\<forall>l \<in> set (splitOn newline content). \<not> rowMatches startT endT tagT l" by simp
    from updateContent_without_match [OF this, of newNotes] Some TFile
    show ?thesis by (auto simp: updateLogEntry_def Let_def)
  next
    case TFolder
    with Some show ?thesis by (simp add: updateLogEntry_def Let_def)
  qed
qed

lemma duplicate_row_vault_unchanged:
  assumes "fullPath = logFilePath cfg (targetDateOf currentDate now)
      (getFileNameDate cfg (targetDateOf currentDate now) @ str ''.md'')"
    and "v fullPath = Some (TFile content)"
    and "beforeLastSlash fullPath = [] \<or> v (beforeLastSlash fullPath) \<noteq> None"
    and "includesStr content tableHeading"
    and "findIndex (\<lambda>line. includesStr line headerRow) (splitOn newline content) = Some h"
    and "l \<in> set (drop (h + 2) (splitOn newline content))"
    and "trim l = logEntry startT endT tagT notes' minutes'"
  shows "saveLogEntry cfg currentDate now v startT endT tagT noteT durationMinutes
    = (v, [RecordSaved tagT durationMinutes])"
proof -
  have dirs: "(if beforeLastSlash fullPath \<noteq> [] \<and> v (beforeLastSlash fullPath) = None
      then createDirectoryRecursive v (beforeLastSlash fullPath) else Inr v) = Inr v"
    using assms(3) by auto
  have same: "saveLogContent cfg (getFileNameDate cfg (targetDateOf currentDate now))
      (Some content) startT endT tagT noteT durationMinutes = content"
    using insertLogEntry_duplicate [OF assms(5,6) logEntry_is_duplicate [OF assms(7)]] assms(4)
    by (simp add: saveLogContent_def ensureTable_def Let_def)
  have "saveLogEntry cfg currentDate now v startT endT tagT noteT durationMinutes =
      (v(fullPath \<mapsto> TFile (saveLogContent cfg (getFileNameDate cfg (targetDateOf currentDate now))
          (fileText (v fullPath)) startT endT tagT noteT durationMinutes)),
       [RecordSaved tagT durationMinutes])"
    by (rule saveLogEntry_content [OF refl refl assms(1) dirs]) (simp add: assms(2))
  then show ?thesis
    using assms(2) same by (simp add: fileText_def fun_upd_idem)
qed

section \<open>saveLogEntry: a row in other spacing\<close>


end
